theory Spec2Isabelle
  imports Main "HOL-Library.Multiset" "HOL-Library.Sublist"
begin

section \<open>Regular expressions of the library\<close>

text \<open>
  \<^verbatim>\<open>lib/index.js\<close> tests strings against two regular expression literals,
  \<^verbatim>\<open>FULLPATH_RE = /^([\w-]+)\/([\w-]+)$/\<close> and
  \<^verbatim>\<open>VERSION_RE = /^v?\d+.\d+.\d+$/\<close>. Both are a sequence of terms between
  \<^verbatim>\<open>^\<close> and \<^verbatim>\<open>$\<close> (no flags, so the two anchors are the ends of the input); a
  term is a single-character atom with at most one quantifier. The capture groups of
  \<^verbatim>\<open>FULLPATH_RE\<close> do not change what \<^verbatim>\<open>test\<close> answers and are left out.

  A string is a list of 8-bit characters here. The two line terminators U+2028 and
  U+2029, which \<^verbatim>\<open>.\<close> also refuses, lie outside that range.
\<close>

datatype atom =
    Lit char            \<comment> \<open>a literal character, also an escaped one such as \<^verbatim>\<open>\/\<close>\<close>
  | Digit               \<comment> \<open>\<^verbatim>\<open>\d\<close>\<close>
  | Word                \<comment> \<open>\<^verbatim>\<open>\w\<close>\<close>
  | AnyChar             \<comment> \<open>\<^verbatim>\<open>.\<close>\<close>
  | OneOf "atom list"   \<comment> \<open>a character class \<^verbatim>\<open>[...]\<close>\<close>

datatype quant =
    Once                \<comment> \<open>no quantifier\<close>
  | Optional            \<comment> \<open>\<^verbatim>\<open>?\<close>\<close>
  | OneOrMore           \<comment> \<open>\<^verbatim>\<open>+\<close>\<close>

type_synonym regex = "(atom \<times> quant) list"

fun atom_match :: "atom \<Rightarrow> char \<Rightarrow> bool" where
  "atom_match (Lit a) c = (c = a)"
| "atom_match Digit c = (c \<in> set ''0123456789'')"
| "atom_match Word c =
     (c \<in> set ''ABCDEFGHIJKLMNOPQRSTUVWXYZabcdefghijklmnopqrstuvwxyz0123456789_'')"
| "atom_match AnyChar c = (c \<noteq> CHR 0x0A \<and> c \<noteq> CHR 0x0D)"
| "atom_match (OneOf as) c = (\<exists>a \<in> set as. atom_match a c)"

text \<open>
  \<^verbatim>\<open>re.test(s)\<close> for an anchored pattern: the terms must consume the whole input.
  The engine backtracks over every way a quantifier can match, so the answer is the
  disjunction of the alternatives.
\<close>

fun test :: "regex \<Rightarrow> string \<Rightarrow> bool" where
  "test [] s = (s = [])"
| "test ((a, Once) # r) [] = False"
| "test ((a, Once) # r) (c # cs) = (atom_match a c \<and> test r cs)"
| "test ((a, Optional) # r) [] = test r []"
| "test ((a, Optional) # r) (c # cs) = ((atom_match a c \<and> test r cs) \<or> test r (c # cs))"
| "test ((a, OneOrMore) # r) [] = False"
| "test ((a, OneOrMore) # r) (c # cs) =
     (atom_match a c \<and> (test ((a, OneOrMore) # r) cs \<or> test r cs))"

definition FULLPATH_RE :: regex where
  "FULLPATH_RE =
     [(OneOf [Word, Lit CHR ''-''], OneOrMore), (Lit CHR ''/'', Once),
      (OneOf [Word, Lit CHR ''-''], OneOrMore)]"

definition VERSION_RE :: regex where
  "VERSION_RE =
     [(Lit CHR ''v'', Optional), (Digit, OneOrMore), (AnyChar, Once), (Digit, OneOrMore),
      (AnyChar, Once), (Digit, OneOrMore)]"

section \<open>Data returned by the host\<close>

text \<open>
  The objects of the GitHub API, with the fields the library reads. Field names carry a
  prefix where two objects share a name in the source (\<^verbatim>\<open>tag.name\<close>,
  \<^verbatim>\<open>tag.commit.sha\<close>, \<^verbatim>\<open>commit.commit.author.date\<close>).
\<close>

record repo =
  full_name :: string
  fork :: bool

record tag =
  tag_name :: string            \<comment> \<open>\<^verbatim>\<open>tag.name\<close>\<close>
  tag_commit_sha :: string      \<comment> \<open>\<^verbatim>\<open>tag.commit.sha\<close>\<close>

record author =
  author_date :: string         \<comment> \<open>\<^verbatim>\<open>author.date\<close>, an ISO 8601 timestamp\<close>
  author_identity :: string     \<comment> \<open>the rest of the author object; never read\<close>

record git_commit =
  gc_author :: author           \<comment> \<open>\<^verbatim>\<open>commit.author\<close>\<close>
  gc_message :: string          \<comment> \<open>\<^verbatim>\<open>commit.message\<close>\<close>
  gc_metadata :: string         \<comment> \<open>committer, tree, url, ...; never read\<close>

record commit_record =
  cr_sha :: string              \<comment> \<open>the SHA that identifies the commit\<close>
  cr_commit :: git_commit       \<comment> \<open>\<^verbatim>\<open>commit.commit\<close>\<close>

record user =
  login :: string
  user_type :: string                   \<comment> \<open>\<^verbatim>\<open>user.type\<close>\<close>
  public_repos :: nat
  total_private_repos :: "nat option"   \<comment> \<open>absent unless visible to the caller\<close>

text \<open>
  A response of \<^verbatim>\<open>fetch\<close>. The source reads the parsed body in two ways: as
  \<^verbatim>\<open>body.message\<close> when the status is not 200, and as the payload of the endpoint
  otherwise. The record carries both readings.
\<close>

record 'a response =
  status :: nat
  json :: 'a
  json_message :: string

datatype error = Error string

text \<open>
  The host: how \<^verbatim>\<open>fetch(url)\<close> settles, by the kind of object the caller reads from
  the body. \<^term>\<open>Inl e\<close> is a rejected \<^verbatim>\<open>fetch\<close>.
\<close>

record host =
  repo_at :: "string \<Rightarrow> error + repo response"
  tags_at :: "string \<Rightarrow> error + tag list response"
  commit_at :: "string \<Rightarrow> error + commit_record response"
  commits_at :: "string \<Rightarrow> error + commit_record list response"
  user_at :: "string \<Rightarrow> error + user response"
  repos_at :: "string \<Rightarrow> error + repo list response"

section \<open>Results of the library\<close>

record tag_result =
  tr_repo :: repo               \<comment> \<open>\<^verbatim>\<open>{repo, tag}\<close> of \<^verbatim>\<open>getLatestTag\<close>\<close>
  tr_tag :: "tag option"        \<comment> \<open>\<^term>\<open>None\<close> is \<^verbatim>\<open>undefined\<close>\<close>

record delta_result =
  dr_repo :: repo               \<comment> \<open>\<^verbatim>\<open>{repo, tag, commits}\<close> of \<^verbatim>\<open>getRepoCommitsSinceTag\<close>\<close>
  dr_tag :: tag
  dr_commits :: "git_commit list"

record published_commit =
  pc_author :: author           \<comment> \<open>\<^verbatim>\<open>author\<close>\<close>
  pc_message :: string          \<comment> \<open>\<^verbatim>\<open>message\<close>\<close>

record result =
  res_repo :: string                        \<comment> \<open>\<^verbatim>\<open>repo\<close>\<close>
  res_tag :: string                         \<comment> \<open>\<^verbatim>\<open>tag\<close>\<close>
  numCommits :: nat
  res_commits :: "published_commit list"    \<comment> \<open>\<^verbatim>\<open>commits\<close>\<close>

section \<open>Promises\<close>

text \<open>
  A promise is the set of ways it can settle. Each is a pair: the requests issued on the
  way (a multiset of URLs: the order in which concurrent branches issue their requests
  depends on completion times) and the value it resolves with (\<^term>\<open>Inr\<close>) or the
  reason it rejects with (\<^term>\<open>Inl\<close>). Debug output is not modelled.
\<close>

type_synonym 'a promise = "(string multiset \<times> (error + 'a)) set"

definition Promise_resolve :: "'a \<Rightarrow> 'a promise" where
  "Promise_resolve x = {({#}, Inr x)}"

definition Promise_reject :: "error \<Rightarrow> 'a promise" where
  "Promise_reject e = {({#}, Inl e)}"

definition fetch :: "(string \<Rightarrow> error + 'a response) \<Rightarrow> string \<Rightarrow> 'a response promise" where
  "fetch endpoint url = {({#url#}, endpoint url)}"

text \<open>\<^verbatim>\<open>p.then(f)\<close>: a rejection passes through, a value goes to the handler.\<close>

definition then_promise :: "'a promise \<Rightarrow> ('a \<Rightarrow> 'b promise) \<Rightarrow> 'b promise" where
  "then_promise p f =
     (\<Union>(t, r) \<in> p. case r of
        Inl e \<Rightarrow> {(t, Inl e)}
      | Inr x \<Rightarrow> (\<lambda>(t', r'). (t + t', r')) ` f x)"

text \<open>\<^verbatim>\<open>p.catch(f)\<close>: a value passes through, a rejection goes to the handler.\<close>

definition catch_promise :: "'a promise \<Rightarrow> (error \<Rightarrow> 'a promise) \<Rightarrow> 'a promise" where
  "catch_promise p f =
     (\<Union>(t, r) \<in> p. case r of
        Inl e \<Rightarrow> (\<lambda>(t', r'). (t + t', r')) ` f e
      | Inr x \<Rightarrow> {(t, Inr x)})"

text \<open>
  \<^verbatim>\<open>Promise.all(ps)\<close> resolves with all the values, in the order of \<^verbatim>\<open>ps\<close>, when every
  branch resolves, and rejects with the reason of the branch that rejects first. Which
  branch is first is decided by completion times, so every rejected branch may be the
  one. The branches run to their end either way: their requests are all issued.
\<close>

fun Promise_all :: "'a promise list \<Rightarrow> 'a list promise" where
  "Promise_all [] = {({#}, Inr [])}"
| "Promise_all (p # ps) =
     (\<Union>(t, r) \<in> p. \<Union>(ts, rs) \<in> Promise_all ps.
        case r of
          Inr x \<Rightarrow> (case rs of Inr xs \<Rightarrow> {(t + ts, Inr (x # xs))} | Inl e' \<Rightarrow> {(t + ts, Inl e')})
        | Inl e \<Rightarrow> (case rs of Inr xs \<Rightarrow> {(t + ts, Inl e)}
                   | Inl e' \<Rightarrow> {(t + ts, Inl e), (t + ts, Inl e')}))"

section \<open>The library\<close>

text \<open>\<^verbatim>\<open>_handleResponse\<close>\<close>

definition handleResponse :: "'a response \<Rightarrow> 'a promise" where
  "handleResponse res =
     (if status res \<noteq> 200 then Promise_reject (Error (json_message res))
      else Promise_resolve (json res))"

text \<open>\<^verbatim>\<open>_transformResult\<close>\<close>

definition transformResult :: "delta_result \<Rightarrow> result" where
  "transformResult result =
     \<lparr>res_repo = full_name (dr_repo result),
      res_tag = tag_name (dr_tag result),
      numCommits = length (dr_commits result),
      res_commits = map (\<lambda>commit. \<lparr>pc_author = gc_author commit, pc_message = gc_message commit\<rparr>)
        (dr_commits result)\<rparr>"

text \<open>
  The constructor. An option is a string or absent; \<^verbatim>\<open>!x\<close> holds of an absent one and of
  the empty string.
\<close>

record opts =
  opts_user :: "string option"      \<comment> \<open>\<^verbatim>\<open>opts.user\<close>\<close>
  opts_token :: "string option"     \<comment> \<open>\<^verbatim>\<open>opts.token\<close>\<close>

record ghcst =
  ROOTURL :: string

fun truthy :: "string option \<Rightarrow> bool" where
  "truthy None = False"
| "truthy (Some s) = (s \<noteq> [])"

fun to_string :: "string option \<Rightarrow> string" where
  "to_string None = ''undefined''"
| "to_string (Some s) = s"

definition GHcst :: "opts \<Rightarrow> error + ghcst" where
  "GHcst opts =
     (if \<not> truthy (opts_user opts) \<or> \<not> truthy (opts_token opts)
      then Inl (Error ''user or token missing'')
      else Inr \<lparr>ROOTURL = ''https://'' @ to_string (opts_user opts) @ '':'' @
             to_string (opts_token opts) @ ''@api.github.com''\<rparr>)"

definition getLatestTag :: "ghcst \<Rightarrow> host \<Rightarrow> repo \<Rightarrow> tag_result promise" where
  "getLatestTag this h repo =
     catch_promise
       (then_promise
         (then_promise
           (fetch (tags_at h) (ROOTURL this @ ''/repos/'' @ full_name repo @ ''/tags''))
           handleResponse)
         (\<lambda>tags. Promise_resolve
            \<lparr>tr_repo = repo, tr_tag = find (\<lambda>tag. test VERSION_RE (tag_name tag)) tags\<rparr>))
       (\<lambda>err. Promise_reject err)"

text \<open>\<^verbatim>\<open>commits.pop()\<close> removes the last element; on an empty array it removes nothing.\<close>

definition getRepoCommitsSinceTag :: "ghcst \<Rightarrow> host \<Rightarrow> repo \<Rightarrow> tag \<Rightarrow> delta_result promise" where
  "getRepoCommitsSinceTag this h repo tag =
     catch_promise
       (then_promise
         (then_promise
           (fetch (commit_at h)
              (ROOTURL this @ ''/repos/'' @ full_name repo @ ''/commits/'' @ tag_commit_sha tag))
           handleResponse)
         (\<lambda>commit.
            catch_promise
              (then_promise
                (then_promise
                  (fetch (commits_at h)
                     (ROOTURL this @ ''/repos/'' @ full_name repo @ ''/commits?since='' @
                        author_date (gc_author (cr_commit commit))))
                  handleResponse)
                (\<lambda>commits. Promise_resolve
                   \<lparr>dr_repo = repo, dr_tag = tag,
                    dr_commits = map cr_commit (butlast commits)\<rparr>))
              (\<lambda>err. Promise_reject err)))
       (\<lambda>err. Promise_reject err)"

definition commitsForRepo :: "ghcst \<Rightarrow> host \<Rightarrow> string \<Rightarrow> result promise" where
  "commitsForRepo this h fullName =
     (if \<not> test FULLPATH_RE fullName
      then Promise_reject (Error (''incorrect format: '' @ fullName))
      else
        catch_promise
          (then_promise
            (then_promise
              (then_promise
                (then_promise
                  (then_promise
                    (then_promise
                      (fetch (repo_at h) (ROOTURL this @ ''/repos/'' @ fullName))
                      handleResponse)
                    (\<lambda>repo. if fork repo then Promise_reject (Error ''ignoring forked repo'')
                       else Promise_resolve repo))
                  (\<lambda>repo. getLatestTag this h repo))
                (\<lambda>result. if tr_tag result = None
                   then Promise_reject (Error ''repo has no version tag'')
                   else Promise_resolve result))
              (\<lambda>result. getRepoCommitsSinceTag this h (tr_repo result) (the (tr_tag result))))
            (\<lambda>result. Promise_resolve (transformResult result)))
          (\<lambda>err. Promise_reject err))"

text \<open>
  A count in a template literal is written in decimal. The counts of an account are
  natural numbers; on them \<^verbatim>\<open>Math.floor(numRepos / perPage + 1)\<close> is
  \<open>numRepos div perPage + 1\<close> (the floating-point quotient is exact enough for every count
  a host can report).
\<close>

function number_to_string :: "nat \<Rightarrow> string" where
  "number_to_string n =
     (if n < 10 then [''0123456789'' ! n]
      else number_to_string (n div 10) @ [''0123456789'' ! (n mod 10)])"
  by pat_completeness auto
termination
  by (relation "measure id") auto

declare number_to_string.simps [simp del]

definition getRepos :: "ghcst \<Rightarrow> host \<Rightarrow> user \<Rightarrow> repo list promise" where
  "getRepos this h user =
     (let numRepos = public_repos user +
            (case total_private_repos user of
               None \<Rightarrow> 0
             | Some n \<Rightarrow> if n \<noteq> 0 then n else 0)
      in if numRepos = 0 then Promise_reject (Error (login user @ '' has no repos''))
         else
           let perPage = 100;
               numPages = numRepos div perPage + 1;
               reposUrl =
                 (if user_type user = ''User''
                  then ROOTURL this @ ''/users/'' @ login user @ ''/repos?per_page='' @
                         number_to_string perPage
                  else ROOTURL this @ ''/orgs/'' @ login user @ ''/repos?per_page='' @
                         number_to_string perPage);
               promises =
                 map (\<lambda>i. then_promise
                          (fetch (repos_at h) (reposUrl @ ''&page='' @ number_to_string (i + 1)))
                          handleResponse)
                   [0..<numPages]
           in then_promise (Promise_all promises) (\<lambda>results. Promise_resolve (concat results)))"

definition commitsForOwner :: "ghcst \<Rightarrow> host \<Rightarrow> string \<Rightarrow> result list promise" where
  "commitsForOwner this h owner =
     catch_promise
       (then_promise
         (then_promise
           (then_promise
             (then_promise
               (then_promise
                 (then_promise
                   (then_promise
                     (then_promise
                       (fetch (user_at h) (ROOTURL this @ ''/users/'' @ owner))
                       handleResponse)
                     (getRepos this h))
                   (\<lambda>repos. Promise_resolve (filter (\<lambda>repo. \<not> fork repo) repos)))
                 (\<lambda>repos. Promise_all (map (getLatestTag this h) repos)))
               (\<lambda>results. Promise_resolve (filter (\<lambda>result. tr_tag result \<noteq> None) results)))
             (\<lambda>results. Promise_all
                (map (\<lambda>result.
                        getRepoCommitsSinceTag this h (tr_repo result) (the (tr_tag result)))
                   results)))
           (\<lambda>results. Promise_resolve
              (filter (\<lambda>result. length (dr_commits result) \<noteq> 0) results)))
         (\<lambda>results. Promise_resolve (map transformResult results)))
       (\<lambda>err. Promise_reject err)"

text \<open>
  The older copy of the file (\<^verbatim>\<open>src/unnamed/part_000\<close>) has no \<^verbatim>\<open>getRepos\<close>: its
  \<^verbatim>\<open>commitsForOwner\<close> lists the repositories with one request. The rest of the copy is the
  text of \<^verbatim>\<open>lib/index.js\<close>.
\<close>

definition commitsForOwner_part_000 :: "ghcst \<Rightarrow> host \<Rightarrow> string \<Rightarrow> result list promise" where
  "commitsForOwner_part_000 this h owner =
     catch_promise
       (then_promise
         (then_promise
           (then_promise
             (then_promise
               (then_promise
                 (then_promise
                   (then_promise
                     (fetch (repos_at h) (ROOTURL this @ ''/users/'' @ owner @ ''/repos''))
                     handleResponse)
                   (\<lambda>repos. Promise_resolve (filter (\<lambda>repo. \<not> fork repo) repos)))
                 (\<lambda>repos. Promise_all (map (getLatestTag this h) repos)))
               (\<lambda>results. Promise_resolve (filter (\<lambda>result. tr_tag result \<noteq> None) results)))
             (\<lambda>results. Promise_all
                (map (\<lambda>result.
                        getRepoCommitsSinceTag this h (tr_repo result) (the (tr_tag result)))
                   results)))
           (\<lambda>results. Promise_resolve
              (filter (\<lambda>result. length (dr_commits result) \<noteq> 0) results)))
         (\<lambda>results. Promise_resolve (map transformResult results)))
       (\<lambda>err. Promise_reject err)"

section \<open>Derived notions\<close>

text \<open>
  How the promise for one page of repositories settles: \<^verbatim>\<open>fetch\<close> of the page, then
  \<^verbatim>\<open>_handleResponse\<close> (lemma \<open>getRepos_eq\<close> relates it to \<^verbatim>\<open>getRepos\<close>).
\<close>

definition page_branch :: "host \<Rightarrow> string \<Rightarrow> nat \<Rightarrow> string multiset \<times> (error + repo list)" where
  "page_branch h base p =
     ({#base @ ''&page='' @ number_to_string p#},
      case repos_at h (base @ ''&page='' @ number_to_string p) of
        Inl e \<Rightarrow> Inl e
      | Inr res \<Rightarrow> if status res \<noteq> 200 then Inl (Error (json_message res)) else Inr (json res))"

section \<open>The pattern of the specification\<close>

text \<open>
  The specification gives the official-release pattern as \<^verbatim>\<open>^v?\d+\.\d+\.\d+$\<close>: an
  optional \<^verbatim>\<open>v\<close>, then digits, a literal dot, digits, a literal dot, digits. It gives the
  shape of a full repository name in words: an owner and a name of letters, digits,
  hyphens and underscores, with exactly one slash between them.
\<close>

definition official_release_pattern :: regex where
  "official_release_pattern =
     [(Lit CHR ''v'', Optional), (Digit, OneOrMore), (Lit CHR ''.'', Once), (Digit, OneOrMore),
      (Lit CHR ''.'', Once), (Digit, OneOrMore)]"

definition name_char :: "char \<Rightarrow> bool" where
  "name_char c \<longleftrightarrow>
     c \<in> set ''ABCDEFGHIJKLMNOPQRSTUVWXYZabcdefghijklmnopqrstuvwxyz0123456789-_''"

definition owner_name_shape :: "string \<Rightarrow> bool" where
  "owner_name_shape s \<longleftrightarrow>
     (\<exists>owner name. s = owner @ ''/'' @ name \<and> owner \<noteq> [] \<and> name \<noteq> [] \<and>
        list_all name_char owner \<and> list_all name_char name)"

text \<open>
  The precondition under which the specification excludes the tagged commit: the list
  the host returns for the \<^verbatim>\<open>since\<close> query holds the commit the tag points at once, as its
  last element.
\<close>

definition tagged_commit_last :: "tag \<Rightarrow> commit_record list \<Rightarrow> bool" where
  "tagged_commit_last tag commits \<longleftrightarrow>
     commits \<noteq> [] \<and> cr_sha (last commits) = tag_commit_sha tag \<and>
     count_list (map cr_sha commits) (tag_commit_sha tag) = 1"

section \<open>An example host\<close>

text \<open>
  A host with one organisation, \<^verbatim>\<open>acme\<close>, and three users. \<^verbatim>\<open>acme/widget\<close> has three
  commits after its release 2.0.0, \<^verbatim>\<open>acme/gadget\<close> is a fork, \<^verbatim>\<open>acme/manual\<close> has no
  release tag and \<^verbatim>\<open>acme/fresh\<close> has no commit after its release. The tag list of
  \<^verbatim>\<open>flaky/broken\<close> and the tagged commit of \<^verbatim>\<open>stale/orphan\<close> cannot be fetched.
\<close>

definition example_this :: ghcst where
  "example_this = \<lparr>ROOTURL = ''https://u:t@api.github.com''\<rparr>"

definition commit_on :: "string \<Rightarrow> string \<Rightarrow> string \<Rightarrow> commit_record" where
  "commit_on sha date msg =
     \<lparr>cr_sha = sha,
      cr_commit = \<lparr>gc_author = \<lparr>author_date = date, author_identity = ''dev''\<rparr>,
                   gc_message = msg, gc_metadata = ''tree '' @ sha\<rparr>\<rparr>"

definition ok :: "'a \<Rightarrow> error + 'a response" where
  "ok x = Inr \<lparr>status = 200, json = x, json_message = []\<rparr>"

definition failed :: "nat \<Rightarrow> string \<Rightarrow> 'a \<Rightarrow> error + 'a response" where
  "failed code msg x = Inr \<lparr>status = code, json = x, json_message = msg\<rparr>"

definition widget :: repo where
  "widget = \<lparr>full_name = ''acme/widget'', fork = False\<rparr>"

definition gadget :: repo where
  "gadget = \<lparr>full_name = ''acme/gadget'', fork = True\<rparr>"

definition manual :: repo where
  "manual = \<lparr>full_name = ''acme/manual'', fork = False\<rparr>"

definition fresh :: repo where
  "fresh = \<lparr>full_name = ''acme/fresh'', fork = False\<rparr>"

definition beta :: repo where
  "beta = \<lparr>full_name = ''acme/beta'', fork = False\<rparr>"

definition broken :: repo where
  "broken = \<lparr>full_name = ''flaky/broken'', fork = False\<rparr>"

definition orphan :: repo where
  "orphan = \<lparr>full_name = ''stale/orphan'', fork = False\<rparr>"

definition account :: "string \<Rightarrow> string \<Rightarrow> nat \<Rightarrow> nat option \<Rightarrow> user" where
  "account name kind public private =
     \<lparr>login = name, user_type = kind, public_repos = public, total_private_repos = private\<rparr>"

definition example_host :: host where
  "example_host =
     \<lparr>repo_at = (\<lambda>url.
        if url = ''https://u:t@api.github.com/repos/acme/widget'' then ok widget
        else if url = ''https://u:t@api.github.com/repos/acme/gadget'' then ok gadget
        else if url = ''https://u:t@api.github.com/repos/acme/manual'' then ok manual
        else failed 404 ''Not Found'' widget),
      tags_at = (\<lambda>url.
        if url = ''https://u:t@api.github.com/repos/acme/widget/tags''
        then ok [\<lparr>tag_name = ''v2.1.0-beta'', tag_commit_sha = ''c4''\<rparr>,
                 \<lparr>tag_name = ''v2.0.0'', tag_commit_sha = ''c2''\<rparr>,
                 \<lparr>tag_name = ''v1.9.0'', tag_commit_sha = ''c1''\<rparr>]
        else if url = ''https://u:t@api.github.com/repos/acme/manual/tags''
        then ok [\<lparr>tag_name = ''release-1'', tag_commit_sha = ''n1''\<rparr>]
        else if url = ''https://u:t@api.github.com/repos/acme/fresh/tags''
        then ok [\<lparr>tag_name = ''1.0.0'', tag_commit_sha = ''f1''\<rparr>]
        else if url = ''https://u:t@api.github.com/repos/acme/beta/tags''
        then ok [\<lparr>tag_name = ''v1.0b2'', tag_commit_sha = ''b2''\<rparr>,
                 \<lparr>tag_name = ''v1.0.0'', tag_commit_sha = ''b1''\<rparr>]
        else if url = ''https://u:t@api.github.com/repos/stale/orphan/tags''
        then ok [\<lparr>tag_name = ''v0.1.0'', tag_commit_sha = ''o1''\<rparr>]
        else failed 500 ''Server Error'' []),
      commit_at = (\<lambda>url.
        if url = ''https://u:t@api.github.com/repos/acme/widget/commits/c2''
        then ok (commit_on ''c2'' ''2016-02-01T00:00:00Z'' ''release 2.0.0'')
        else if url = ''https://u:t@api.github.com/repos/acme/fresh/commits/f1''
        then ok (commit_on ''f1'' ''2016-03-01T00:00:00Z'' ''release 1.0.0'')
        else failed 404 ''Not Found'' (commit_on [] [] [])),
      commits_at = (\<lambda>url.
        if url = ''https://u:t@api.github.com/repos/acme/widget/commits?since=2016-02-01T00:00:00Z''
        then ok [commit_on ''c5'' ''2016-02-04T00:00:00Z'' ''fix'',
                 commit_on ''c4'' ''2016-02-03T00:00:00Z'' ''beta'',
                 commit_on ''c3'' ''2016-02-02T00:00:00Z'' ''feature'',
                 commit_on ''c2'' ''2016-02-01T00:00:00Z'' ''release 2.0.0'']
        else if url = ''https://u:t@api.github.com/repos/acme/fresh/commits?since=2016-03-01T00:00:00Z''
        then ok [commit_on ''f1'' ''2016-03-01T00:00:00Z'' ''release 1.0.0'']
        else failed 404 ''Not Found'' []),
      user_at = (\<lambda>url.
        if url = ''https://u:t@api.github.com/users/acme''
        then ok (account ''acme'' ''Organization'' 3 (Some 1))
        else if url = ''https://u:t@api.github.com/users/big''
        then ok (account ''big'' ''User'' 100 None)
        else if url = ''https://u:t@api.github.com/users/flaky''
        then ok (account ''flaky'' ''User'' 2 None)
        else if url = ''https://u:t@api.github.com/users/stale''
        then ok (account ''stale'' ''User'' 2 None)
        else if url = ''https://u:t@api.github.com/users/nobody''
        then ok (account ''nobody'' ''User'' 0 None)
        else failed 404 ''Not Found'' (account [] [] 0 None)),
      repos_at = (\<lambda>url.
        if url = ''https://u:t@api.github.com/orgs/acme/repos?per_page=100&page=1''
        then ok [widget, gadget, manual, fresh]
        else if url = ''https://u:t@api.github.com/users/big/repos?per_page=100&page=1''
        then ok [widget, fresh]
        else if url = ''https://u:t@api.github.com/users/big/repos?per_page=100&page=2''
        then ok [manual]
        else if url = ''https://u:t@api.github.com/users/flaky/repos?per_page=100&page=1''
        then ok [widget, broken]
        else if url = ''https://u:t@api.github.com/users/stale/repos?per_page=100&page=1''
        then ok [orphan, widget]
        else failed 404 ''Not Found'' [])\<rparr>"

definition example_delta :: delta_result where
  "example_delta =
     \<lparr>dr_repo = widget, dr_tag = \<lparr>tag_name = ''v2.0.0'', tag_commit_sha = ''c2''\<rparr>,
      dr_commits = [cr_commit (commit_on ''c3'' ''2016-02-02T00:00:00Z'' ''feature'')]\<rparr>"

definition widget_entry :: result where
  "widget_entry =
     \<lparr>res_repo = ''acme/widget'', res_tag = ''v2.0.0'', numCommits = 3,
      res_commits =
        [\<lparr>pc_author = \<lparr>author_date = ''2016-02-04T00:00:00Z'', author_identity = ''dev''\<rparr>,
            pc_message = ''fix''\<rparr>,
         \<lparr>pc_author = \<lparr>author_date = ''2016-02-03T00:00:00Z'', author_identity = ''dev''\<rparr>,
            pc_message = ''beta''\<rparr>,
         \<lparr>pc_author = \<lparr>author_date = ''2016-02-02T00:00:00Z'', author_identity = ''dev''\<rparr>,
            pc_message = ''feature''\<rparr>]\<rparr>"

section \<open>A repository with a pre-release tag only\<close>

text \<open>
  A second host, with one user, \<^verbatim>\<open>early\<close>, whose only repository, \<^verbatim>\<open>early/preview\<close>, is not a
  fork and has one tag, \<^verbatim>\<open>v1.0b2\<close>, and one commit after the tagged one. The host answers both
  the paged listing of \<^verbatim>\<open>lib/index.js\<close> and the single listing of the older copy.
\<close>

definition preview :: repo where
  "preview = \<lparr>full_name = ''early/preview'', fork = False\<rparr>"

definition preview_tags :: "tag list" where
  "preview_tags = [\<lparr>tag_name = ''v1.0b2'', tag_commit_sha = ''p2''\<rparr>]"

definition preview_host :: host where
  "preview_host =
     \<lparr>repo_at = (\<lambda>url.
        if url = ''https://u:t@api.github.com/repos/early/preview'' then ok preview
        else failed 404 ''Not Found'' preview),
      tags_at = (\<lambda>url.
        if url = ''https://u:t@api.github.com/repos/early/preview/tags'' then ok preview_tags
        else failed 404 ''Not Found'' []),
      commit_at = (\<lambda>url.
        if url = ''https://u:t@api.github.com/repos/early/preview/commits/p2''
        then ok (commit_on ''p2'' ''2016-04-01T00:00:00Z'' ''beta 2'')
        else failed 404 ''Not Found'' (commit_on [] [] [])),
      commits_at = (\<lambda>url.
        if url = ''https://u:t@api.github.com/repos/early/preview/commits?since=2016-04-01T00:00:00Z''
        then ok [commit_on ''p3'' ''2016-04-02T00:00:00Z'' ''fix'',
                 commit_on ''p2'' ''2016-04-01T00:00:00Z'' ''beta 2'']
        else failed 404 ''Not Found'' []),
      user_at = (\<lambda>url.
        if url = ''https://u:t@api.github.com/users/early''
        then ok (account ''early'' ''User'' 1 None)
        else failed 404 ''Not Found'' (account [] [] 0 None)),
      repos_at = (\<lambda>url.
        if url = ''https://u:t@api.github.com/users/early/repos?per_page=100&page=1''
        then ok [preview]
        else if url = ''https://u:t@api.github.com/users/early/repos'' then ok [preview]
        else failed 404 ''Not Found'' [])\<rparr>"

definition preview_entry :: result where
  "preview_entry =
     \<lparr>res_repo = ''early/preview'', res_tag = ''v1.0b2'', numCommits = 1,
      res_commits =
        [\<lparr>pc_author = \<lparr>author_date = ''2016-04-02T00:00:00Z'', author_identity = ''dev''\<rparr>,
            pc_message = ''fix''\<rparr>]\<rparr>"

section \<open>Properties\<close>

lemmas preview_defs = example_this_def preview_host_def preview_def preview_tags_def
  preview_entry_def account_def ok_def failed_def commit_on_def

lemmas example_defs = example_this_def example_host_def widget_def gadget_def manual_def
  fresh_def beta_def broken_def orphan_def account_def ok_def failed_def commit_on_def

subsection \<open>Promises that settle in one way\<close>

lemma then_promise_resolved: "then_promise {(t, Inr x)} f = (\<lambda>(t', r'). (t + t', r')) ` f x"
  by (simp add: then_promise_def)

lemma then_promise_rejected: "then_promise {(t, Inl e)} f = {(t, Inl e)}"
  by (simp add: then_promise_def)

lemma catch_promise_rethrow: "catch_promise p (\<lambda>err. Promise_reject err) = p"
  by (auto simp: catch_promise_def Promise_reject_def split: sum.splits)

lemma then_promise_resolved_value:
  "then_promise {(t, Inr x)} (\<lambda>x. Promise_resolve (g x)) = {(t, Inr (g x))}"
  by (simp add: then_promise_resolved Promise_resolve_def)

lemma then_promise_rejected_image:
  "then_promise ((\<lambda>e. (T, Inl e)) ` E) f = (\<lambda>e. (T, Inl e)) ` E"
  unfolding then_promise_def by auto

lemma then_promise_value:
  fixes p :: "'a promise" and g :: "'a \<Rightarrow> 'b"
  shows "then_promise p (\<lambda>x. Promise_resolve (g x)) = (\<lambda>(t, r). (t, map_sum id g r)) ` p"
proof (rule set_eqI)
  fix out :: "string multiset \<times> (error + 'b)"
  show "out \<in> then_promise p (\<lambda>x. Promise_resolve (g x)) \<longleftrightarrow>
      out \<in> (\<lambda>(t, r). (t, map_sum id g r)) ` p"
  proof
    assume "out \<in> then_promise p (\<lambda>x. Promise_resolve (g x))"
    then obtain t r where tr: "(t, r) \<in> p"
      and "out \<in> (case r of Inl e \<Rightarrow> {(t, Inl e)} | Inr x \<Rightarrow> {(t, Inr (g x))})"
      unfolding then_promise_def Promise_resolve_def by auto
    then have "out = (t, map_sum id g r)" by (cases r) auto
    with tr show "out \<in> (\<lambda>(t, r). (t, map_sum id g r)) ` p" by force
  next
    assume "out \<in> (\<lambda>(t, r). (t, map_sum id g r)) ` p"
    then obtain t r where tr: "(t, r) \<in> p" and out: "out = (t, map_sum id g r)" by auto
    have "out \<in> (case r of Inl e \<Rightarrow> {(t, Inl e)} | Inr x \<Rightarrow> {(t, Inr (g x))})"
      unfolding out by (cases r) auto
    with tr show "out \<in> then_promise p (\<lambda>x. Promise_resolve (g x))"
      unfolding then_promise_def Promise_resolve_def
      by simp (rule bexI [of _ "(t, r)"], simp_all)
  qed
qed

lemma then_promise_resolved_iff:
  "(T, Inr y) \<in> then_promise p f \<longleftrightarrow>
     (\<exists>t x t'. (t, Inr x) \<in> p \<and> (t', Inr y) \<in> f x \<and> T = t + t')"
proof
  assume "(T, Inr y) \<in> then_promise p f"
  then obtain t r where tr: "(t, r) \<in> p"
    and in_case: "(T, Inr y) \<in> (case r of Inl e \<Rightarrow> {(t, Inl e)}
        | Inr x \<Rightarrow> (\<lambda>(t', r'). (t + t', r')) ` f x)"
    unfolding then_promise_def by auto
  show "\<exists>t x t'. (t, Inr x) \<in> p \<and> (t', Inr y) \<in> f x \<and> T = t + t'"
  proof (cases r)
    case (Inl e)
    with in_case show ?thesis by simp
  next
    case (Inr x)
    with in_case obtain t' where "(t', Inr y) \<in> f x" "T = t + t'" by auto
    with tr Inr show ?thesis by blast
  qed
next
  assume "\<exists>t x t'. (t, Inr x) \<in> p \<and> (t', Inr y) \<in> f x \<and> T = t + t'"
  then obtain t x t' where a: "(t, Inr x) \<in> p" "(t', Inr y) \<in> f x" "T = t + t'" by blast
  from a(2,3) have "(T, Inr y) \<in> (\<lambda>(t', r'). (t + t', r')) ` f x" by force
  with a(1) show "(T, Inr y) \<in> then_promise p f"
    unfolding then_promise_def by (simp, intro bexI [of _ "(t, Inr x)"]) simp_all
qed

lemma then_promise_value_iff:
  "(T, Inr y) \<in> then_promise p (\<lambda>x. Promise_resolve (g x)) \<longleftrightarrow>
     (\<exists>x. (T, Inr x) \<in> p \<and> y = g x)"
  unfolding then_promise_resolved_iff Promise_resolve_def by auto

lemma fetch_handleResponse:
  "then_promise (fetch endpoint url) handleResponse =
     {({#url#}, case endpoint url of
         Inl e \<Rightarrow> Inl e
       | Inr res \<Rightarrow> if status res \<noteq> 200 then Inl (Error (json_message res)) else Inr (json res))}"
  by (simp add: then_promise_def fetch_def handleResponse_def Promise_reject_def
      Promise_resolve_def split: sum.splits)

subsection \<open>Joining settled branches\<close>

lemma Promise_all_resolved_head:
  "(T, R) \<in> Promise_all ({(t, Inr x)} # ps) \<longleftrightarrow>
     (\<exists>ts. (\<exists>xs. (ts, Inr xs) \<in> Promise_all ps \<and> T = t + ts \<and> R = Inr (x # xs)) \<or>
           (\<exists>e'. (ts, Inl e') \<in> Promise_all ps \<and> T = t + ts \<and> R = Inl e'))"
proof
  assume "(T, R) \<in> Promise_all ({(t, Inr x)} # ps)"
  then obtain ts r where "(ts, r) \<in> Promise_all ps"
    "(T, R) \<in> (case r of Inr xs \<Rightarrow> {(t + ts, Inr (x # xs))} | Inl e' \<Rightarrow> {(t + ts, Inl e')})"
    by auto
  then show "\<exists>ts. (\<exists>xs. (ts, Inr xs) \<in> Promise_all ps \<and> T = t + ts \<and> R = Inr (x # xs)) \<or>
           (\<exists>e'. (ts, Inl e') \<in> Promise_all ps \<and> T = t + ts \<and> R = Inl e')"
    by (cases r) auto
next
  assume "\<exists>ts. (\<exists>xs. (ts, Inr xs) \<in> Promise_all ps \<and> T = t + ts \<and> R = Inr (x # xs)) \<or>
           (\<exists>e'. (ts, Inl e') \<in> Promise_all ps \<and> T = t + ts \<and> R = Inl e')"
  then obtain ts r where a: "(ts, r) \<in> Promise_all ps"
    "(T, R) \<in> (case r of Inr xs \<Rightarrow> {(t + ts, Inr (x # xs))} | Inl e' \<Rightarrow> {(t + ts, Inl e')})"
    by fastforce
  then show "(T, R) \<in> Promise_all ({(t, Inr x)} # ps)"
    by simp (rule bexI[of _ "(ts, r)"], simp_all)
qed

lemma Promise_all_rejected_head:
  "(T, R) \<in> Promise_all ({(t, Inl e)} # ps) \<longleftrightarrow>
     (\<exists>ts r. (ts, r) \<in> Promise_all ps \<and> T = t + ts \<and>
        (R = Inl e \<or> (\<exists>e'. r = Inl e' \<and> R = Inl e')))"
proof
  assume "(T, R) \<in> Promise_all ({(t, Inl e)} # ps)"
  then obtain ts r where "(ts, r) \<in> Promise_all ps"
    "(T, R) \<in> (case r of Inr xs \<Rightarrow> {(t + ts, Inl e)}
        | Inl e' \<Rightarrow> {(t + ts, Inl e), (t + ts, Inl e')})"
    by auto
  then show "\<exists>ts r. (ts, r) \<in> Promise_all ps \<and> T = t + ts \<and>
        (R = Inl e \<or> (\<exists>e'. r = Inl e' \<and> R = Inl e'))"
    by (cases r) auto
next
  assume "\<exists>ts r. (ts, r) \<in> Promise_all ps \<and> T = t + ts \<and>
        (R = Inl e \<or> (\<exists>e'. r = Inl e' \<and> R = Inl e'))"
  then obtain ts r where a: "(ts, r) \<in> Promise_all ps" "T = t + ts"
    "R = Inl e \<or> (\<exists>e'. r = Inl e' \<and> R = Inl e')" by blast
  then have "(T, R) \<in> (case r of Inr xs \<Rightarrow> {(t + ts, Inl e)}
        | Inl e' \<Rightarrow> {(t + ts, Inl e), (t + ts, Inl e')})"
    by (cases r) auto
  with a(1) show "(T, R) \<in> Promise_all ({(t, Inl e)} # ps)"
    by (simp del: Un_insert_left) (rule bexI[of _ "(ts, r)"], simp_all)
qed

lemma Promise_all_settles:
  "\<exists>r. (sum_list (map fst bs), r) \<in> Promise_all (map (\<lambda>b. {b}) bs)"
proof (induction bs)
  case Nil
  show ?case by simp
next
  case (Cons b bs)
  then obtain r where r: "(sum_list (map fst bs), r) \<in> Promise_all (map (\<lambda>b. {b}) bs)" ..
  obtain t r' where b: "b = (t, r')" by (cases b)
  show ?case
  proof (cases r')
    case (Inl e)
    from r show ?thesis
      unfolding list.map b Inl Promise_all_rejected_head by auto
  next
    case (Inr x)
    from r show ?thesis
      unfolding list.map b Inr Promise_all_resolved_head by (cases r) auto
  qed
qed

lemma Promise_all_settled_resolved:
  "(T, Inr ys) \<in> Promise_all (map (\<lambda>b. {b}) bs) \<longleftrightarrow>
     T = sum_list (map fst bs) \<and> map snd bs = map Inr ys"
proof (induction bs arbitrary: T ys)
  case Nil
  show ?case by auto
next
  case (Cons b bs)
  obtain t r where b: "b = (t, r)" by (cases b)
  show ?case
  proof (cases r)
    case (Inl e)
    show ?thesis
      unfolding list.map b Inl Promise_all_rejected_head by auto
  next
    case (Inr x)
    show ?thesis
      unfolding list.map b Inr Promise_all_resolved_head Cons.IH by auto
  qed
qed

lemma Promise_all_settled_rejected:
  "(T, Inl e) \<in> Promise_all (map (\<lambda>b. {b}) bs) \<longleftrightarrow>
     T = sum_list (map fst bs) \<and> Inl e \<in> snd ` set bs"
proof (induction bs arbitrary: T e)
  case Nil
  show ?case by auto
next
  case (Cons b bs)
  obtain t r where b: "b = (t, r)" by (cases b)
  obtain r0 where r0: "(sum_list (map fst bs), r0) \<in> Promise_all (map (\<lambda>b. {b}) bs)"
    using Promise_all_settles by blast
  show ?case
  proof (cases r)
    case (Inl e0)
    have "(T, Inl e) \<in> Promise_all (map (\<lambda>b. {b}) (b # bs)) \<longleftrightarrow>
        T = t + sum_list (map fst bs) \<and> (e = e0 \<or> Inl e \<in> snd ` set bs)"
      unfolding list.map b Inl Promise_all_rejected_head
    proof
      assume "\<exists>ts r. (ts, r) \<in> Promise_all (map (\<lambda>b. {b}) bs) \<and> T = t + ts \<and>
         (Inl e = Inl e0 \<or> (\<exists>e'. r = Inl e' \<and> Inl e = Inl e'))"
      then obtain ts r1 where c: "(ts, r1) \<in> Promise_all (map (\<lambda>b. {b}) bs)" "T = t + ts"
        "e = e0 \<or> r1 = Inl e" by auto
      have "ts = sum_list (map fst bs)"
      proof (cases r1)
        case (Inl e1)
        with c(1) show ?thesis by (simp add: Cons.IH)
      next
        case (Inr xs)
        with c(1) show ?thesis by (simp add: Promise_all_settled_resolved)
      qed
      moreover have "e = e0 \<or> Inl e \<in> snd ` set bs"
      proof (cases "e = e0")
        case True
        then show ?thesis ..
      next
        case False
        with c(3) have "r1 = Inl e" by simp
        with c(1) have "Inl e \<in> snd ` set bs" by (simp add: Cons.IH)
        then show ?thesis ..
      qed
      ultimately show "T = t + sum_list (map fst bs) \<and> (e = e0 \<or> Inl e \<in> snd ` set bs)"
        using c(2) by simp
    next
      assume a: "T = t + sum_list (map fst bs) \<and> (e = e0 \<or> Inl e \<in> snd ` set bs)"
      show "\<exists>ts r. (ts, r) \<in> Promise_all (map (\<lambda>b. {b}) bs) \<and> T = t + ts \<and>
         (Inl e = Inl e0 \<or> (\<exists>e'. r = Inl e' \<and> Inl e = Inl e'))"
      proof (cases "e = e0")
        case True
        with r0 a show ?thesis by blast
      next
        case False
        with a have "(sum_list (map fst bs), Inl e) \<in> Promise_all (map (\<lambda>b. {b}) bs)"
          by (simp add: Cons.IH)
        with a show ?thesis by blast
      qed
    qed
    moreover have "Inl e \<in> snd ` set (b # bs) \<longleftrightarrow> e = e0 \<or> Inl e \<in> snd ` set bs"
      by (auto simp: b Inl)
    moreover have "sum_list (map fst (b # bs)) = t + sum_list (map fst bs)"
      by (simp add: b)
    ultimately show ?thesis by (simp only:)
  next
    case (Inr x)
    show ?thesis
      unfolding list.map b Inr Promise_all_resolved_head Cons.IH by auto
  qed
qed

lemma Promise_all_all_resolved:
  assumes "map snd bs = map Inr xs"
  shows "Promise_all (map (\<lambda>b. {b}) bs) = {(sum_list (map fst bs), Inr xs)}"
proof (rule set_eqI)
  fix out :: "string multiset \<times> (error + 'a list)"
  obtain T r where out: "out = (T, r)" by (cases out)
  show "out \<in> Promise_all (map (\<lambda>b. {b}) bs) \<longleftrightarrow> out \<in> {(sum_list (map fst bs), Inr xs)}"
  proof (cases r)
    case (Inl e)
    have "Inl e \<notin> set (map snd bs)" unfolding assms by auto
    then show ?thesis
      by (simp add: out Inl Promise_all_settled_rejected)
  next
    case (Inr ys)
    have "map Inr xs = (map Inr ys :: (error + 'a) list) \<longleftrightarrow> xs = ys"
      by (simp add: inj_map_eq_map)
    then show ?thesis
      by (auto simp: out Inr Promise_all_settled_resolved assms)
  qed
qed

lemma Promise_all_one_rejected:
  assumes "Inl e0 \<in> snd ` set bs"
  shows "Promise_all (map (\<lambda>b. {b}) bs) =
     (\<lambda>e. (sum_list (map fst bs), Inl e)) ` {e. Inl e \<in> snd ` set bs}"
proof (rule set_eqI)
  fix out :: "string multiset \<times> (error + 'a list)"
  obtain T r where out: "out = (T, r)" by (cases out)
  show "out \<in> Promise_all (map (\<lambda>b. {b}) bs) \<longleftrightarrow>
      out \<in> (\<lambda>e. (sum_list (map fst bs), Inl e)) ` {e. Inl e \<in> snd ` set bs}"
  proof (cases r)
    case (Inl e)
    show ?thesis
      by (auto simp: out Inl Promise_all_settled_rejected)
  next
    case (Inr ys)
    have "map snd bs \<noteq> map Inr ys"
    proof
      assume eq: "map snd bs = map Inr ys"
      from assms have "Inl e0 \<in> set (map snd bs)" by simp
      then have "Inl e0 \<in> set (map Inr ys :: (error + 'a) list)" by (simp only: eq)
      then show False by auto
    qed
    then show ?thesis
      by (auto simp: out Inr Promise_all_settled_resolved)
  qed
qed

lemma Promise_all_requests:
  "out \<in> Promise_all (map (\<lambda>b. {b}) bs) \<Longrightarrow> fst out = sum_list (map fst bs)"
  by (cases out; cases "snd out")
    (simp_all add: Promise_all_settled_rejected Promise_all_settled_resolved)

lemma sum_list_singletons: "sum_list (map (\<lambda>x. {#f x#}) xs) = mset (map f xs)"
  by (induction xs) simp_all

lemma all_resolved:
  assumes "\<forall>x \<in> set xs. \<exists>y. f x = Inr y"
  shows "map f xs = map Inr (map (\<lambda>x. projr (f x)) xs)"
  using assms by (induction xs) auto

lemma map_eq_transfer:
  "map f xs = map g ys \<Longrightarrow> (\<And>x y. f x = g y \<Longrightarrow> p x = q y) \<Longrightarrow> map p xs = map q ys"
proof (induction xs arbitrary: ys)
  case Nil
  then show ?case by simp
next
  case (Cons x xs)
  from Cons.prems(1) obtain y ys' where ys: "ys = y # ys'" "f x = g y" "map f xs = map g ys'"
    by (cases ys) auto
  with Cons.IH [OF ys(3) Cons.prems(2)] Cons.prems(2) [OF ys(2)] show ?case by simp
qed

lemma map_eq_source:
  assumes "map f xs = map g ys" and "y \<in> set ys"
  shows "\<exists>x \<in> set xs. f x = g y"
proof -
  from assms(2) have "g y \<in> set (map g ys)" by simp
  then have "g y \<in> set (map f xs)" by (simp only: assms(1))
  then show ?thesis by auto
qed

subsection \<open>What the regular expressions accept\<close>

lemma test_version_examples:
  "test VERSION_RE ''v1.2.3''" "test VERSION_RE ''10.0.12''"
  "\<not> test VERSION_RE ''v1.2.3-beta''" "\<not> test VERSION_RE ''release-1''"
  "test VERSION_RE ''v1.0b2''"
  by (simp_all add: VERSION_RE_def)

lemma test_Once:
  "test ((a, Once) # r) s \<longleftrightarrow> (\<exists>c cs. s = c # cs \<and> atom_match a c \<and> test r cs)"
  by (cases s) simp_all

lemma test_Optional:
  "test ((a, Optional) # r) s \<longleftrightarrow>
     test r s \<or> (\<exists>c cs. s = c # cs \<and> atom_match a c \<and> test r cs)"
  by (cases s) auto

lemma test_OneOrMore:
  "test ((a, OneOrMore) # r) s \<longleftrightarrow>
     (\<exists>u v. s = u @ v \<and> u \<noteq> [] \<and> list_all (atom_match a) u \<and> test r v)"
proof (induction s)
  case Nil
  show ?case by simp
next
  case (Cons c cs)
  show ?case
  proof
    assume "test ((a, OneOrMore) # r) (c # cs)"
    then have c: "atom_match a c" and "test ((a, OneOrMore) # r) cs \<or> test r cs"
      by simp_all
    then show "\<exists>u v. c # cs = u @ v \<and> u \<noteq> [] \<and> list_all (atom_match a) u \<and> test r v"
    proof (elim disjE)
      assume "test ((a, OneOrMore) # r) cs"
      with Cons.IH obtain u v where "cs = u @ v" "list_all (atom_match a) u" "test r v"
        by blast
      with c have "c # cs = (c # u) @ v \<and> c # u \<noteq> [] \<and> list_all (atom_match a) (c # u) \<and>
          test r v" by simp
      then show ?thesis by blast
    next
      assume "test r cs"
      with c have "c # cs = [c] @ cs \<and> [c] \<noteq> [] \<and> list_all (atom_match a) [c] \<and> test r cs"
        by simp
      then show ?thesis by blast
    qed
  next
    assume "\<exists>u v. c # cs = u @ v \<and> u \<noteq> [] \<and> list_all (atom_match a) u \<and> test r v"
    then obtain u v where uv: "c # cs = u @ v" "u \<noteq> []" "list_all (atom_match a) u" "test r v"
      by blast
    then obtain u' where u: "u = c # u'" by (cases u) auto
    with uv have c: "atom_match a c" and cs: "cs = u' @ v" and u': "list_all (atom_match a) u'"
      by simp_all
    show "test ((a, OneOrMore) # r) (c # cs)"
    proof (cases "u' = []")
      case True
      with c cs uv(4) show ?thesis by simp
    next
      case False
      with cs u' uv(4) Cons.IH have "test ((a, OneOrMore) # r) cs" by blast
      with c show ?thesis by simp
    qed
  qed
qed

lemma name_char_class: "atom_match (OneOf [Word, Lit CHR ''-'']) = name_char"
  by (rule ext) (auto simp: name_char_def)

lemma FULLPATH_RE_shape: "test FULLPATH_RE s \<longleftrightarrow> owner_name_shape s"
proof -
  have "test FULLPATH_RE s \<longleftrightarrow>
      (\<exists>u v. s = u @ v \<and> u \<noteq> [] \<and> list_all name_char u \<and>
        (\<exists>c cs. v = c # cs \<and> c = CHR ''/'' \<and>
          (\<exists>u' v'. cs = u' @ v' \<and> u' \<noteq> [] \<and> list_all name_char u' \<and> v' = [])))"
    unfolding FULLPATH_RE_def test_OneOrMore test_Once
    by (simp only: name_char_class atom_match.simps test.simps)
  also have "\<dots> \<longleftrightarrow> owner_name_shape s"
    unfolding owner_name_shape_def by auto
  finally show ?thesis .
qed

text \<open>
  What \<^verbatim>\<open>VERSION_RE\<close> accepts: an optional \<^verbatim>\<open>v\<close> and three runs of digits, with any one
  character that is not a line terminator between two runs.
\<close>

lemma digit_runs:
  "test [(Digit, OneOrMore), (AnyChar, Once), (Digit, OneOrMore), (AnyChar, Once),
      (Digit, OneOrMore)] s \<longleftrightarrow>
     (\<exists>a x b y c. s = a @ [x] @ b @ [y] @ c \<and>
        a \<noteq> [] \<and> list_all (atom_match Digit) a \<and> atom_match AnyChar x \<and>
        b \<noteq> [] \<and> list_all (atom_match Digit) b \<and> atom_match AnyChar y \<and>
        c \<noteq> [] \<and> list_all (atom_match Digit) c)"
proof
  assume "test [(Digit, OneOrMore), (AnyChar, Once), (Digit, OneOrMore), (AnyChar, Once),
      (Digit, OneOrMore)] s"
  from test_OneOrMore [THEN iffD1, OF this] obtain a s1 where
    a: "s = a @ s1" "a \<noteq> []" "list_all (atom_match Digit) a"
    and "test [(AnyChar, Once), (Digit, OneOrMore), (AnyChar, Once), (Digit, OneOrMore)] s1"
    by blast
  from test_Once [THEN iffD1, OF this(4)] obtain x s2 where
    x: "s1 = x # s2" "atom_match AnyChar x"
    and "test [(Digit, OneOrMore), (AnyChar, Once), (Digit, OneOrMore)] s2"
    by blast
  from test_OneOrMore [THEN iffD1, OF this(3)] obtain b s3 where
    b: "s2 = b @ s3" "b \<noteq> []" "list_all (atom_match Digit) b"
    and "test [(AnyChar, Once), (Digit, OneOrMore)] s3"
    by blast
  from test_Once [THEN iffD1, OF this(4)] obtain y s4 where
    y: "s3 = y # s4" "atom_match AnyChar y"
    and "test [(Digit, OneOrMore)] s4"
    by blast
  from test_OneOrMore [THEN iffD1, OF this(3)] obtain c s5 where
    c: "s4 = c @ s5" "c \<noteq> []" "list_all (atom_match Digit) c" "test [] s5"
    by blast
  from c(1,4) have "s4 = c" by simp
  with a(1) x(1) b(1) y(1) have "s = a @ [x] @ b @ [y] @ c" by simp
  with a(2,3) x(2) b(2,3) y(2) c(2,3) show "\<exists>a x b y c. s = a @ [x] @ b @ [y] @ c \<and>
        a \<noteq> [] \<and> list_all (atom_match Digit) a \<and> atom_match AnyChar x \<and>
        b \<noteq> [] \<and> list_all (atom_match Digit) b \<and> atom_match AnyChar y \<and>
        c \<noteq> [] \<and> list_all (atom_match Digit) c"
    by blast
next
  assume "\<exists>a x b y c. s = a @ [x] @ b @ [y] @ c \<and>
        a \<noteq> [] \<and> list_all (atom_match Digit) a \<and> atom_match AnyChar x \<and>
        b \<noteq> [] \<and> list_all (atom_match Digit) b \<and> atom_match AnyChar y \<and>
        c \<noteq> [] \<and> list_all (atom_match Digit) c"
  then obtain a x b y c where s: "s = a @ [x] @ b @ [y] @ c"
    and a: "a \<noteq> []" "list_all (atom_match Digit) a"
    and x: "atom_match AnyChar x"
    and b: "b \<noteq> []" "list_all (atom_match Digit) b"
    and y: "atom_match AnyChar y"
    and c: "c \<noteq> []" "list_all (atom_match Digit) c"
    by blast
  have "c = c @ [] \<and> c \<noteq> [] \<and> list_all (atom_match Digit) c \<and> test [] []"
    using c by simp
  then have "test [(Digit, OneOrMore)] c"
    by (intro test_OneOrMore [THEN iffD2]) blast
  with y have "y # c = y # c \<and> atom_match AnyChar y \<and> test [(Digit, OneOrMore)] c"
    by blast
  then have "test [(AnyChar, Once), (Digit, OneOrMore)] (y # c)"
    by (intro test_Once [THEN iffD2]) blast
  with b have "b @ y # c = b @ y # c \<and> b \<noteq> [] \<and> list_all (atom_match Digit) b \<and>
      test [(AnyChar, Once), (Digit, OneOrMore)] (y # c)"
    by blast
  then have "test [(Digit, OneOrMore), (AnyChar, Once), (Digit, OneOrMore)] (b @ y # c)"
    by (intro test_OneOrMore [THEN iffD2]) blast
  with x have "x # b @ y # c = x # b @ y # c \<and> atom_match AnyChar x \<and>
      test [(Digit, OneOrMore), (AnyChar, Once), (Digit, OneOrMore)] (b @ y # c)"
    by blast
  then have "test [(AnyChar, Once), (Digit, OneOrMore), (AnyChar, Once), (Digit, OneOrMore)]
      (x # b @ y # c)"
    by (intro test_Once [THEN iffD2]) blast
  with a have "a @ x # b @ y # c = a @ x # b @ y # c \<and> a \<noteq> [] \<and>
      list_all (atom_match Digit) a \<and>
      test [(AnyChar, Once), (Digit, OneOrMore), (AnyChar, Once), (Digit, OneOrMore)]
        (x # b @ y # c)"
    by blast
  then have "test [(Digit, OneOrMore), (AnyChar, Once), (Digit, OneOrMore), (AnyChar, Once),
      (Digit, OneOrMore)] (a @ x # b @ y # c)"
    by (intro test_OneOrMore [THEN iffD2]) blast
  then show "test [(Digit, OneOrMore), (AnyChar, Once), (Digit, OneOrMore), (AnyChar, Once),
      (Digit, OneOrMore)] s"
    by (simp add: s)
qed

lemma VERSION_RE_accepts:
  "test VERSION_RE s \<longleftrightarrow>
     (\<exists>v a x b y c. s = v @ a @ [x] @ b @ [y] @ c \<and> (v = [] \<or> v = ''v'') \<and>
        a \<noteq> [] \<and> list_all (atom_match Digit) a \<and> atom_match AnyChar x \<and>
        b \<noteq> [] \<and> list_all (atom_match Digit) b \<and> atom_match AnyChar y \<and>
        c \<noteq> [] \<and> list_all (atom_match Digit) c)"
proof -
  define runs where "runs = (\<lambda>s. \<exists>a x b y c. s = a @ [x] @ b @ [y] @ c \<and>
        a \<noteq> [] \<and> list_all (atom_match Digit) a \<and> atom_match AnyChar x \<and>
        b \<noteq> [] \<and> list_all (atom_match Digit) b \<and> atom_match AnyChar y \<and>
        c \<noteq> [] \<and> list_all (atom_match Digit) c)"
  have runs: "test [(Digit, OneOrMore), (AnyChar, Once), (Digit, OneOrMore), (AnyChar, Once),
      (Digit, OneOrMore)] s \<longleftrightarrow> runs s" for s
    unfolding runs_def by (rule digit_runs)
  have "test VERSION_RE s \<longleftrightarrow> runs s \<or> (\<exists>cs. s = CHR ''v'' # cs \<and> runs cs)"
    unfolding VERSION_RE_def test_Optional runs by simp
  also have "\<dots> \<longleftrightarrow> (\<exists>v cs. s = v @ cs \<and> (v = [] \<or> v = ''v'') \<and> runs cs)"
  proof
    assume "runs s \<or> (\<exists>cs. s = CHR ''v'' # cs \<and> runs cs)"
    then show "\<exists>v cs. s = v @ cs \<and> (v = [] \<or> v = ''v'') \<and> runs cs"
    proof
      assume "runs s"
      then have "s = [] @ s \<and> ([] = [] \<or> [] = ''v'') \<and> runs s" by simp
      then show ?thesis by blast
    next
      assume "\<exists>cs. s = CHR ''v'' # cs \<and> runs cs"
      then obtain cs where "s = ''v'' @ cs \<and> (''v'' = [] \<or> ''v'' = ''v'') \<and> runs cs"
        by auto
      then show ?thesis by blast
    qed
  next
    assume "\<exists>v cs. s = v @ cs \<and> (v = [] \<or> v = ''v'') \<and> runs cs"
    then obtain v cs where "s = v @ cs" "v = [] \<or> v = ''v''" "runs cs" by blast
    then show "runs s \<or> (\<exists>cs. s = CHR ''v'' # cs \<and> runs cs)" by auto
  qed
  also have "\<dots> \<longleftrightarrow> (\<exists>v a x b y c. s = v @ a @ [x] @ b @ [y] @ c \<and> (v = [] \<or> v = ''v'') \<and>
        a \<noteq> [] \<and> list_all (atom_match Digit) a \<and> atom_match AnyChar x \<and>
        b \<noteq> [] \<and> list_all (atom_match Digit) b \<and> atom_match AnyChar y \<and>
        c \<noteq> [] \<and> list_all (atom_match Digit) c)"
    unfolding runs_def by (rule iffI; (elim exE conjE)?; blast)
  finally show ?thesis .
qed

text \<open>Every string of the official-release pattern is accepted by \<^verbatim>\<open>VERSION_RE\<close>.\<close>

lemma test_mono:
  "list_all2 (\<lambda>(a, q) (b, q'). q = q' \<and> (\<forall>c. atom_match a c \<longrightarrow> atom_match b c)) r r' \<Longrightarrow>
     test r s \<Longrightarrow> test r' s"
proof (induction r s arbitrary: r' rule: test.induct)
  case (1 s)
  then show ?case by simp
next
  case (2 a r)
  then show ?case by simp
next
  case (3 a r c cs)
  then show ?case by (auto simp: list_all2_Cons1)
next
  case (4 a r)
  then show ?case by (auto simp: list_all2_Cons1)
next
  case (5 a r c cs)
  from "5.prems"(1) obtain b r0 where r': "r' = (b, Optional) # r0"
    and ab: "\<forall>c. atom_match a c \<longrightarrow> atom_match b c"
    and rr: "list_all2 (\<lambda>(a, q) (b, q'). q = q' \<and> (\<forall>c. atom_match a c \<longrightarrow> atom_match b c)) r r0"
    by (auto simp: list_all2_Cons1)
  from "5.prems"(2) have "(atom_match a c \<and> test r cs) \<or> test r (c # cs)" by simp
  then show ?case
  proof
    assume "atom_match a c \<and> test r cs"
    with ab "5.IH"(1) [OF rr] show ?thesis by (simp add: r')
  next
    assume "test r (c # cs)"
    with "5.IH"(2) [OF rr] show ?thesis by (simp add: r')
  qed
next
  case (6 a r)
  then show ?case by simp
next
  case (7 a r c cs)
  from "7.prems"(1) obtain b r0 where r': "r' = (b, OneOrMore) # r0"
    and ab: "\<forall>c. atom_match a c \<longrightarrow> atom_match b c"
    and rr: "list_all2 (\<lambda>(a, q) (b, q'). q = q' \<and> (\<forall>c. atom_match a c \<longrightarrow> atom_match b c)) r r0"
    by (auto simp: list_all2_Cons1)
  from "7.prems"(2) have c: "atom_match a c"
    and "test ((a, OneOrMore) # r) cs \<or> test r cs" by simp_all
  then show ?case
  proof (elim disjE)
    assume "test ((a, OneOrMore) # r) cs"
    with "7.IH"(1) [of r'] "7.prems"(1) have "test r' cs" by blast
    with c ab show ?thesis by (simp add: r')
  next
    assume "test r cs"
    with "7.IH"(2) [OF rr] c ab show ?thesis by (simp add: r')
  qed
qed

lemma official_release_accepted: "test official_release_pattern s \<Longrightarrow> test VERSION_RE s"
  by (erule test_mono [rotated]) (simp add: official_release_pattern_def VERSION_RE_def)

subsection \<open>How the operations of the library settle\<close>

lemma getLatestTag_eq:
  "getLatestTag this h repo =
     {({#ROOTURL this @ ''/repos/'' @ full_name repo @ ''/tags''#},
       case tags_at h (ROOTURL this @ ''/repos/'' @ full_name repo @ ''/tags'') of
         Inl e \<Rightarrow> Inl e
       | Inr res \<Rightarrow>
           if status res \<noteq> 200 then Inl (Error (json_message res))
           else Inr \<lparr>tr_repo = repo,
                  tr_tag = find (\<lambda>tag. test VERSION_RE (tag_name tag)) (json res)\<rparr>)}"
  unfolding getLatestTag_def catch_promise_rethrow fetch_handleResponse
  by (simp add: then_promise_def Promise_resolve_def split: sum.splits)

lemma getRepoCommitsSinceTag_eq:
  "getRepoCommitsSinceTag this h repo tag =
     (let url1 = ROOTURL this @ ''/repos/'' @ full_name repo @ ''/commits/'' @ tag_commit_sha tag
      in case commit_at h url1 of
           Inl e \<Rightarrow> {({#url1#}, Inl e)}
         | Inr res1 \<Rightarrow>
             if status res1 \<noteq> 200 then {({#url1#}, Inl (Error (json_message res1)))}
             else
               let url2 = ROOTURL this @ ''/repos/'' @ full_name repo @ ''/commits?since='' @
                            author_date (gc_author (cr_commit (json res1)))
               in {({#url1, url2#},
                    case commits_at h url2 of
                      Inl e \<Rightarrow> Inl e
                    | Inr res2 \<Rightarrow>
                        if status res2 \<noteq> 200 then Inl (Error (json_message res2))
                        else Inr \<lparr>dr_repo = repo, dr_tag = tag,
                               dr_commits = map cr_commit (butlast (json res2))\<rparr>)})"
  unfolding getRepoCommitsSinceTag_def catch_promise_rethrow fetch_handleResponse
  by (simp add: then_promise_def Promise_resolve_def Let_def split: sum.splits)

lemma getLatestTag_settles_once:
  "(t, r) \<in> getLatestTag this h repo \<Longrightarrow> getLatestTag this h repo = {(t, r)}"
  unfolding getLatestTag_eq by simp

lemma getRepoCommitsSinceTag_settles_once:
  "(t, r) \<in> getRepoCommitsSinceTag this h repo tag \<Longrightarrow>
     getRepoCommitsSinceTag this h repo tag = {(t, r)}"
  unfolding getRepoCommitsSinceTag_eq Let_def by (auto split: sum.splits if_splits)

lemma getLatestTag_the_elem:
  "getLatestTag this h repo = {the_elem (getLatestTag this h repo)}"
  unfolding getLatestTag_eq by simp

lemma getRepoCommitsSinceTag_the_elem:
  "getRepoCommitsSinceTag this h repo tag = {the_elem (getRepoCommitsSinceTag this h repo tag)}"
  unfolding getRepoCommitsSinceTag_eq Let_def by (simp split: sum.splits)

lemma getLatestTag_member:
  "out \<in> getLatestTag this h repo \<longleftrightarrow> the_elem (getLatestTag this h repo) = out"
  using getLatestTag_the_elem [of this h repo] by (metis singletonD singletonI)

lemma getRepoCommitsSinceTag_member:
  "out \<in> getRepoCommitsSinceTag this h repo tag \<longleftrightarrow>
     the_elem (getRepoCommitsSinceTag this h repo tag) = out"
  using getRepoCommitsSinceTag_the_elem [of this h repo tag] by (metis singletonD singletonI)

lemma getLatestTag_repo:
  "(t, Inr result) \<in> getLatestTag this h repo \<Longrightarrow> tr_repo result = repo"
  unfolding getLatestTag_eq by (auto split: sum.splits if_splits)

lemma getRepoCommitsSinceTag_repo_tag:
  "(t, Inr d) \<in> getRepoCommitsSinceTag this h repo tag \<Longrightarrow> dr_repo d = repo \<and> dr_tag d = tag"
  unfolding getRepoCommitsSinceTag_eq Let_def by (auto split: sum.splits if_splits)

lemma commitsForRepo_fetched:
  assumes "test FULLPATH_RE fullName"
    and "repo_at h (ROOTURL this @ ''/repos/'' @ fullName) = Inr res"
    and "status res = 200"
  shows "commitsForRepo this h fullName =
     (if fork (json res)
      then {({#ROOTURL this @ ''/repos/'' @ fullName#}, Inl (Error ''ignoring forked repo''))}
      else
        then_promise
          (then_promise
            (then_promise
              ((\<lambda>(t', r'). ({#ROOTURL this @ ''/repos/'' @ fullName#} + t', r')) `
                 getLatestTag this h (json res))
              (\<lambda>result. if tr_tag result = None
                 then Promise_reject (Error ''repo has no version tag'')
                 else Promise_resolve result))
            (\<lambda>result. getRepoCommitsSinceTag this h (tr_repo result) (the (tr_tag result))))
          (\<lambda>result. Promise_resolve (transformResult result)))"
  using assms
  by (simp add: commitsForRepo_def catch_promise_rethrow fetch_handleResponse
      then_promise_resolved then_promise_rejected Promise_reject_def Promise_resolve_def)

lemma number_to_string_100: "number_to_string 100 = ''100''"
  by (simp add: number_to_string.simps)

lemma getRepos_eq:
  assumes "numRepos = public_repos user +
      (case total_private_repos user of None \<Rightarrow> 0 | Some n \<Rightarrow> n)"
    and "base = ROOTURL this @ (if user_type user = ''User'' then ''/users/'' else ''/orgs/'') @
      login user @ ''/repos?per_page=100''"
  shows "getRepos this h user =
     (if numRepos = 0 then {({#}, Inl (Error (login user @ '' has no repos'')))}
      else then_promise
        (Promise_all (map (\<lambda>b. {b}) (map (page_branch h base) [1..<numRepos div 100 + 2])))
        (\<lambda>results. Promise_resolve (concat results)))"
proof -
  have sum: "public_repos user +
      (case total_private_repos user of None \<Rightarrow> 0 | Some n \<Rightarrow> if n \<noteq> 0 then n else 0) = numRepos"
    unfolding assms(1) by (cases "total_private_repos user") auto
  have base: "(if user_type user = ''User''
        then ROOTURL this @ ''/users/'' @ login user @ ''/repos?per_page='' @ number_to_string 100
        else ROOTURL this @ ''/orgs/'' @ login user @ ''/repos?per_page='' @ number_to_string 100)
      = base"
    unfolding assms(2) number_to_string_100 by simp
  have pages: "map (\<lambda>i. then_promise
        (fetch (repos_at h) (base @ ''&page='' @ number_to_string (i + 1))) handleResponse)
        [0..<numRepos div 100 + 1] =
      map (\<lambda>b. {b}) (map (page_branch h base) [1..<numRepos div 100 + 2])"
  proof -
    have "[1..<numRepos div 100 + 2] = map Suc [0..<numRepos div 100 + 1]"
      by (simp add: map_Suc_upt)
    then show ?thesis
      by (simp add: fetch_handleResponse page_branch_def comp_def)
  qed
  show ?thesis
    unfolding getRepos_def Let_def sum base pages
    by (simp add: Promise_reject_def)
qed

lemma getRepos_settles_once:
  assumes "(t, Inr repos) \<in> getRepos this h user"
  shows "getRepos this h user = {(t, Inr repos)}"
proof -
  define n where
    "n = public_repos user + (case total_private_repos user of None \<Rightarrow> 0 | Some n \<Rightarrow> n)"
  define base where
    "base = ROOTURL this @ (if user_type user = ''User'' then ''/users/'' else ''/orgs/'') @
      login user @ ''/repos?per_page=100''"
  define bs where "bs = map (page_branch h base) [1..<n div 100 + 2]"
  note eq = getRepos_eq [OF n_def base_def, of h, folded bs_def]
  have "n \<noteq> 0"
  proof
    assume "n = 0"
    with eq assms show False by simp
  qed
  with eq have eq': "getRepos this h user =
      (\<lambda>(t, r). (t, map_sum id concat r)) ` Promise_all (map (\<lambda>b. {b}) bs)"
    by (simp only: if_False then_promise_value)
  with assms obtain r where r: "(t, r) \<in> Promise_all (map (\<lambda>b. {b}) bs)"
    "map_sum id concat r = Inr repos" by auto
  then obtain pages where pages: "r = Inr pages" "concat pages = repos" by (cases r) auto
  with r(1) have "map snd bs = map Inr pages" "t = sum_list (map fst bs)"
    by (simp_all add: Promise_all_settled_resolved)
  then have "Promise_all (map (\<lambda>b. {b}) bs) = {(t, Inr pages)}"
    by (simp add: Promise_all_all_resolved)
  with eq' pages show ?thesis by simp
qed

text \<open>
  The handlers that follow the listing of the repositories, over any promise for the
  list: what they resolve with is made from a subsequence of the listed repositories that
  are not forks.
\<close>

lemma owner_scan_filters:
  fixes listing :: "repo list promise"
  assumes "(T, Inr out) \<in>
      then_promise
        (then_promise
          (then_promise
            (then_promise
              (then_promise
                (then_promise
                  listing
                  (\<lambda>repos. Promise_resolve (filter (\<lambda>repo. \<not> fork repo) repos)))
                (\<lambda>repos. Promise_all (map (getLatestTag this h) repos)))
              (\<lambda>results. Promise_resolve (filter (\<lambda>result. tr_tag result \<noteq> None) results)))
            (\<lambda>results. Promise_all
               (map (\<lambda>result.
                       getRepoCommitsSinceTag this h (tr_repo result) (the (tr_tag result)))
                  results)))
          (\<lambda>results. Promise_resolve
             (filter (\<lambda>result. length (dr_commits result) \<noteq> 0) results)))
        (\<lambda>results. Promise_resolve (map transformResult results))"
  shows "\<exists>t repos kept.
      (t, Inr repos) \<in> listing \<and>
      subseq kept (filter (\<lambda>repo. \<not> fork repo) repos) \<and>
      list_all2 (\<lambda>entry repo.
          res_repo entry = full_name repo \<and> \<not> fork repo \<and>
          (\<exists>t' result tag. (t', Inr result) \<in> getLatestTag this h repo \<and>
             tr_tag result = Some tag \<and> res_tag entry = tag_name tag) \<and>
          numCommits entry \<noteq> 0 \<and> res_commits entry \<noteq> []) out kept"
proof -
  let ?A = "\<lambda>repo. the_elem (getLatestTag this h repo)"
  let ?B = "\<lambda>result. the_elem
      (getRepoCommitsSinceTag this h (tr_repo result) (the (tr_tag result)))"
  define s2 where "s2 = then_promise listing
      (\<lambda>repos. Promise_resolve (filter (\<lambda>repo. \<not> fork repo) repos))"
  define s3 where "s3 = then_promise s2
      (\<lambda>repos. Promise_all (map (getLatestTag this h) repos))"
  define s4 where "s4 = then_promise s3
      (\<lambda>results. Promise_resolve (filter (\<lambda>result. tr_tag result \<noteq> None) results))"
  define s5 where "s5 = then_promise s4
      (\<lambda>results. Promise_all (map (\<lambda>result.
          getRepoCommitsSinceTag this h (tr_repo result) (the (tr_tag result))) results))"
  define s6 where "s6 = then_promise s5
      (\<lambda>results. Promise_resolve
          (filter (\<lambda>result. length (dr_commits result) \<noteq> 0) results))"
  from assms have "(T, Inr out) \<in>
      then_promise s6 (\<lambda>results. Promise_resolve (map transformResult results))"
    unfolding s2_def s3_def s4_def s5_def s6_def .
  then obtain ds' where ds': "(T, Inr ds') \<in> s6" "out = map transformResult ds'"
    by (auto simp: then_promise_value_iff)
  from ds'(1) obtain ds where ds: "(T, Inr ds) \<in> s5"
    "ds' = filter (\<lambda>result. length (dr_commits result) \<noteq> 0) ds"
    unfolding s6_def by (auto simp: then_promise_value_iff)
  from ds(1) obtain t4 trs' t5 where trs': "(t4, Inr trs') \<in> s4"
    and join5: "(t5, Inr ds) \<in> Promise_all (map (\<lambda>result.
          getRepoCommitsSinceTag this h (tr_repo result) (the (tr_tag result))) trs')"
    unfolding s5_def by (auto simp: then_promise_resolved_iff)
  from trs' obtain trs where trs: "(t4, Inr trs) \<in> s3"
    "trs' = filter (\<lambda>result. tr_tag result \<noteq> None) trs"
    unfolding s4_def by (auto simp: then_promise_value_iff)
  from trs(1) obtain t2 nf t3 where nf: "(t2, Inr nf) \<in> s2"
    and join3: "(t3, Inr trs) \<in> Promise_all (map (getLatestTag this h) nf)"
    unfolding s3_def by (auto simp: then_promise_resolved_iff)
  from nf obtain repos where repos: "(t2, Inr repos) \<in> listing"
    "nf = filter (\<lambda>repo. \<not> fork repo) repos"
    unfolding s2_def by (auto simp: then_promise_value_iff)
  have "map (getLatestTag this h) nf = map (\<lambda>b. {b}) (map ?A nf)"
    unfolding map_map comp_def by (rule map_cong [OF refl]) (rule getLatestTag_the_elem)
  with join3 have "(t3, Inr trs) \<in> Promise_all (map (\<lambda>b. {b}) (map ?A nf))"
    by (simp only:)
  then have "map snd (map ?A nf) = map Inr trs"
    by (simp only: Promise_all_settled_resolved)
  then have tags: "map (\<lambda>repo. snd (?A repo)) nf = map Inr trs"
    by (simp add: comp_def)
  have "map (\<lambda>result. getRepoCommitsSinceTag this h (tr_repo result) (the (tr_tag result))) trs'
      = map (\<lambda>b. {b}) (map ?B trs')"
    unfolding map_map comp_def
    by (rule map_cong [OF refl]) (rule getRepoCommitsSinceTag_the_elem)
  with join5 have "(t5, Inr ds) \<in> Promise_all (map (\<lambda>b. {b}) (map ?B trs'))"
    by (simp only:)
  then have "map snd (map ?B trs') = map Inr ds"
    by (simp only: Promise_all_settled_resolved)
  then have deltas: "map (\<lambda>result. snd (?B result)) trs' = map Inr ds"
    by (simp add: comp_def)

  have A: "tr_repo result = repo \<and> (fst (?A repo), Inr result) \<in> getLatestTag this h repo"
    if "snd (?A repo) = Inr result" for repo result
  proof -
    from that have "?A repo = (fst (?A repo), Inr result)" by (metis prod.collapse)
    then have "(fst (?A repo), Inr result) \<in> getLatestTag this h repo"
      by (simp only: getLatestTag_member)
    then show ?thesis by (simp add: getLatestTag_repo)
  qed
  have B: "dr_repo d = tr_repo result \<and> dr_tag d = the (tr_tag result)"
    if "snd (?B result) = Inr d" for result d
  proof -
    from that have "?B result = (fst (?B result), Inr d)" by (metis prod.collapse)
    then have "(fst (?B result), Inr d)
        \<in> getRepoCommitsSinceTag this h (tr_repo result) (the (tr_tag result))"
      by (simp only: getRepoCommitsSinceTag_member)
    then show ?thesis by (rule getRepoCommitsSinceTag_repo_tag)
  qed

  define kept where "kept = map dr_repo ds'"
  have "map (\<lambda>repo. repo) nf = map tr_repo trs"
    by (rule map_eq_transfer [OF tags]) (simp add: A)
  then have "nf = map tr_repo trs" by simp
  moreover have "map tr_repo trs' = map dr_repo ds"
    by (rule map_eq_transfer [OF deltas]) (simp add: B)
  moreover have "subseq (map dr_repo ds') (map dr_repo ds)"
    unfolding ds(2) by (intro subseq_map subseq_filter_left)
  moreover have "subseq (map tr_repo trs') (map tr_repo trs)"
    unfolding trs(2) by (intro subseq_map subseq_filter_left)
  ultimately have order: "subseq kept (filter (\<lambda>repo. \<not> fork repo) repos)"
    unfolding kept_def repos(2) [symmetric] by (metis subseq_order.trans)

  have entry: "res_repo (transformResult d) = full_name (dr_repo d) \<and> \<not> fork (dr_repo d) \<and>
      (\<exists>t' result tag. (t', Inr result) \<in> getLatestTag this h (dr_repo d) \<and>
         tr_tag result = Some tag \<and> res_tag (transformResult d) = tag_name tag) \<and>
      numCommits (transformResult d) \<noteq> 0 \<and> res_commits (transformResult d) \<noteq> []"
    if "d \<in> set ds'" for d
  proof -
    from that have d: "d \<in> set ds" "dr_commits d \<noteq> []" by (simp_all add: ds(2))
    from map_eq_source [OF deltas d(1)] obtain result where
      result: "result \<in> set trs'" "snd (?B result) = Inr d" by auto
    from result(1) obtain tag where tag: "result \<in> set trs" "tr_tag result = Some tag"
      by (auto simp: trs(2))
    from map_eq_source [OF tags tag(1)] obtain repo where
      repo: "repo \<in> set nf" "snd (?A repo) = Inr result" by auto
    from B [OF result(2)] A [OF repo(2)] tag(2)
    have "dr_repo d = repo" "dr_tag d = tag"
      "(fst (?A repo), Inr result) \<in> getLatestTag this h repo" by simp_all
    moreover from repo(1) have "\<not> fork repo" by (simp add: repos(2))
    ultimately show ?thesis
      using tag(2) d(2) by (auto simp: transformResult_def)
  qed
  then have "list_all2 (\<lambda>entry repo.
          res_repo entry = full_name repo \<and> \<not> fork repo \<and>
          (\<exists>t' result tag. (t', Inr result) \<in> getLatestTag this h repo \<and>
             tr_tag result = Some tag \<and> res_tag entry = tag_name tag) \<and>
          numCommits entry \<noteq> 0 \<and> res_commits entry \<noteq> []) out kept"
    unfolding ds'(2) kept_def list_all2_map1 list_all2_map2 list_all2_same by blast
  with repos(1) order show ?thesis by blast
qed

subsection \<open>Facts about lists\<close>

lemma butlast_misses_last:
  assumes "xs \<noteq> []" and "f (last xs) = s" and "count_list (map f xs) s = 1"
  shows "\<forall>x \<in> set (butlast xs). f x \<noteq> s"
proof -
  from assms(1) have "xs = butlast xs @ [last xs]" by simp
  then have "count_list (map f xs) s = count_list (map f (butlast xs @ [last xs])) s"
    by simp
  also have "\<dots> = count_list (map f (butlast xs)) s + 1"
    using assms(2) by simp
  finally have "count_list (map f (butlast xs)) s = 0"
    using assms(3) by simp
  then have "s \<notin> set (map f (butlast xs))"
    by (simp add: count_list_0_iff)
  then show ?thesis by auto
qed

lemma find_first_match:
  "find P xs = Some x \<Longrightarrow> \<exists>ys zs. xs = ys @ x # zs \<and> P x \<and> (\<forall>y \<in> set ys. \<not> P y)"
proof (induction xs)
  case Nil
  then show ?case by simp
next
  case (Cons a xs)
  show ?case
  proof (cases "P a")
    case True
    with Cons.prems have "a = x" by simp
    with True have "a # xs = [] @ x # xs \<and> P x \<and> (\<forall>y \<in> set []. \<not> P y)" by simp
    then show ?thesis by blast
  next
    case False
    with Cons.prems have "find P xs = Some x" by simp
    with Cons.IH obtain ys zs where "xs = ys @ x # zs" "P x" "\<forall>y \<in> set ys. \<not> P y" by blast
    with False have "a # xs = (a # ys) @ x # zs \<and> P x \<and> (\<forall>y \<in> set (a # ys). \<not> P y)"
      by simp
    then show ?thesis by blast
  qed
qed

text \<open>
  Where every tag that \<^verbatim>\<open>VERSION_RE\<close> accepts is an official release, the two patterns
  select the same tag.
\<close>

lemma find_official_release:
  assumes "\<And>t. t \<in> set tags \<Longrightarrow> test VERSION_RE (tag_name t) \<Longrightarrow>
      test official_release_pattern (tag_name t)"
  shows "find (\<lambda>tag. test VERSION_RE (tag_name tag)) tags =
      find (\<lambda>tag. test official_release_pattern (tag_name tag)) tags"
  using assms
proof (induction tags)
  case Nil
  then show ?case by simp
next
  case (Cons t tags)
  have "test VERSION_RE (tag_name t) \<longleftrightarrow> test official_release_pattern (tag_name t)"
    using Cons.prems [of t] official_release_accepted [of "tag_name t"] by auto
  moreover have "find (\<lambda>tag. test VERSION_RE (tag_name tag)) tags =
      find (\<lambda>tag. test official_release_pattern (tag_name tag)) tags"
    by (rule Cons.IH) (simp_all add: Cons.prems)
  ultimately show ?case by simp
qed

subsection \<open>The example host, evaluated\<close>

lemma example_forks:
  "\<not> fork widget" "fork gadget" "\<not> fork manual" "\<not> fork fresh" "\<not> fork broken"
  "\<not> fork orphan"
  by (simp_all add: example_defs)

lemma example_tags:
  "getLatestTag example_this example_host widget =
     {({#''https://u:t@api.github.com/repos/acme/widget/tags''#},
       Inr \<lparr>tr_repo = widget,
              tr_tag = Some \<lparr>tag_name = ''v2.0.0'', tag_commit_sha = ''c2''\<rparr>\<rparr>)}"
  "getLatestTag example_this example_host manual =
     {({#''https://u:t@api.github.com/repos/acme/manual/tags''#},
       Inr \<lparr>tr_repo = manual, tr_tag = None\<rparr>)}"
  "getLatestTag example_this example_host fresh =
     {({#''https://u:t@api.github.com/repos/acme/fresh/tags''#},
       Inr \<lparr>tr_repo = fresh,
              tr_tag = Some \<lparr>tag_name = ''1.0.0'', tag_commit_sha = ''f1''\<rparr>\<rparr>)}"
  "getLatestTag example_this example_host broken =
     {({#''https://u:t@api.github.com/repos/flaky/broken/tags''#}, Inl (Error ''Server Error''))}"
  "getLatestTag example_this example_host orphan =
     {({#''https://u:t@api.github.com/repos/stale/orphan/tags''#},
       Inr \<lparr>tr_repo = orphan,
              tr_tag = Some \<lparr>tag_name = ''v0.1.0'', tag_commit_sha = ''o1''\<rparr>\<rparr>)}"
  by (simp_all add: getLatestTag_eq example_defs VERSION_RE_def)

lemma example_deltas:
  "getRepoCommitsSinceTag example_this example_host orphan
      \<lparr>tag_name = ''v0.1.0'', tag_commit_sha = ''o1''\<rparr> =
     {({#''https://u:t@api.github.com/repos/stale/orphan/commits/o1''#},
       Inl (Error ''Not Found''))}"
  "\<exists>t d. getRepoCommitsSinceTag example_this example_host widget
      \<lparr>tag_name = ''v2.0.0'', tag_commit_sha = ''c2''\<rparr> = {(t, Inr d)}"
  by (simp_all add: getRepoCommitsSinceTag_eq example_defs)

lemma example_repos:
  "getRepos example_this example_host (account ''acme'' ''Organization'' 3 (Some 1)) =
     {({#''https://u:t@api.github.com/orgs/acme/repos?per_page=100&page=1''#},
       Inr [widget, gadget, manual, fresh])}"
  "getRepos example_this example_host (account ''flaky'' ''User'' 2 None) =
     {({#''https://u:t@api.github.com/users/flaky/repos?per_page=100&page=1''#},
       Inr [widget, broken])}"
  "getRepos example_this example_host (account ''stale'' ''User'' 2 None) =
     {({#''https://u:t@api.github.com/users/stale/repos?per_page=100&page=1''#},
       Inr [orphan, widget])}"
  by (simp_all add: getRepos_def Let_def fetch_handleResponse then_promise_resolved
      Promise_resolve_def number_to_string.simps example_this_def example_host_def
      account_def ok_def)

lemma example_users:
  "user_at example_host (ROOTURL example_this @ ''/users/'' @ ''acme'') =
     Inr \<lparr>status = 200, json = account ''acme'' ''Organization'' 3 (Some 1), json_message = []\<rparr>"
  "user_at example_host (ROOTURL example_this @ ''/users/'' @ ''flaky'') =
     Inr \<lparr>status = 200, json = account ''flaky'' ''User'' 2 None, json_message = []\<rparr>"
  "user_at example_host (ROOTURL example_this @ ''/users/'' @ ''stale'') =
     Inr \<lparr>status = 200, json = account ''stale'' ''User'' 2 None, json_message = []\<rparr>"
  by (simp_all add: example_this_def example_host_def ok_def)

lemma acme_scan:
  "commitsForOwner example_this example_host ''acme'' =
     {({#''https://u:t@api.github.com/users/acme'',
         ''https://u:t@api.github.com/orgs/acme/repos?per_page=100&page=1'',
         ''https://u:t@api.github.com/repos/acme/widget/tags'',
         ''https://u:t@api.github.com/repos/acme/manual/tags'',
         ''https://u:t@api.github.com/repos/acme/fresh/tags'',
         ''https://u:t@api.github.com/repos/acme/widget/commits/c2'',
         ''https://u:t@api.github.com/repos/acme/widget/commits?since=2016-02-01T00:00:00Z'',
         ''https://u:t@api.github.com/repos/acme/fresh/commits/f1'',
         ''https://u:t@api.github.com/repos/acme/fresh/commits?since=2016-03-01T00:00:00Z''#},
       Inr [widget_entry])}"
  unfolding commitsForOwner_def catch_promise_rethrow
  by (simp add: fetch_handleResponse then_promise_resolved then_promise_rejected getRepos_def
      Let_def getLatestTag_eq getRepoCommitsSinceTag_eq Promise_resolve_def
      number_to_string.simps transformResult_def VERSION_RE_def example_defs widget_entry_def)

subsection \<open>The host with a pre-release tag, evaluated\<close>

lemma preview_no_official_release:
  "find (\<lambda>tag. test official_release_pattern (tag_name tag)) preview_tags = None"
  by (simp add: preview_tags_def official_release_pattern_def)

lemma preview_tag:
  "getLatestTag example_this preview_host preview =
     {({#''https://u:t@api.github.com/repos/early/preview/tags''#},
       Inr \<lparr>tr_repo = preview,
              tr_tag = Some \<lparr>tag_name = ''v1.0b2'', tag_commit_sha = ''p2''\<rparr>\<rparr>)}"
  by (simp add: getLatestTag_eq preview_defs VERSION_RE_def)

section \<open>The claims\<close>

subsection \<open>The official-release pattern\<close>

text \<open>
  C1. The specification has \<^verbatim>\<open>VERSION_RE\<close> accept exactly the strings of the form
  \<^verbatim>\<open>v?<digits>.<digits>.<digits>\<close>, so that \<^verbatim>\<open>getLatestTag\<close> never selects another name. The
  two dots of the literal are not escaped and match any character: \<^verbatim>\<open>v1.0b2\<close>, which
  the official-release pattern refuses, is accepted, and selected ahead of \<^verbatim>\<open>v1.0.0\<close>.
\<close>

theorem VERSION_RE_accepts_unofficial:
  "\<not> test official_release_pattern ''v1.0b2'' \<and> test VERSION_RE ''v1.0b2'' \<and>
   getLatestTag example_this example_host beta =
     {({#''https://u:t@api.github.com/repos/acme/beta/tags''#},
       Inr \<lparr>tr_repo = beta,
              tr_tag = Some \<lparr>tag_name = ''v1.0b2'', tag_commit_sha = ''b2''\<rparr>\<rparr>)}"
  by (simp add: getLatestTag_eq example_defs VERSION_RE_def official_release_pattern_def)

subsection \<open>The commits since a tag\<close>

text \<open>
  C2. Let the list the host returns for the \<^verbatim>\<open>since\<close> query hold the commit the tag points
  at once, as its last element. Then the commits of every result of
  \<^verbatim>\<open>getRepoCommitsSinceTag\<close> are those of the other elements of the list, in order, and none
  of these has the SHA of the tag's commit.
\<close>

theorem getRepoCommitsSinceTag_excludes_tagged:
  assumes "(t, Inr d) \<in> getRepoCommitsSinceTag this h repo tag"
    and "commit_at h (ROOTURL this @ ''/repos/'' @ full_name repo @ ''/commits/'' @
           tag_commit_sha tag) = Inr res1"
    and "commits_at h (ROOTURL this @ ''/repos/'' @ full_name repo @ ''/commits?since='' @
           author_date (gc_author (cr_commit (json res1)))) = Inr res2"
    and "tagged_commit_last tag (json res2)"
  shows "\<exists>kept tagged. json res2 = kept @ [tagged] \<and>
           cr_sha tagged = tag_commit_sha tag \<and>
           dr_commits d = map cr_commit kept \<and>
           (\<forall>c \<in> set kept. cr_sha c \<noteq> tag_commit_sha tag)"
proof -
  let ?cs = "json res2"
  from assms(1-3) have "dr_commits d = map cr_commit (butlast ?cs)"
    by (auto simp: getRepoCommitsSinceTag_eq Let_def split: if_splits)
  moreover from assms(4) have "?cs = butlast ?cs @ [last ?cs]"
    and "cr_sha (last ?cs) = tag_commit_sha tag"
    by (simp_all add: tagged_commit_last_def)
  moreover from assms(4) have "\<forall>c \<in> set (butlast ?cs). cr_sha c \<noteq> tag_commit_sha tag"
    by (intro butlast_misses_last) (simp_all add: tagged_commit_last_def)
  ultimately show ?thesis by blast
qed

theorem getRepoCommitsSinceTag_excludes_tagged_witness:
  "tagged_commit_last \<lparr>tag_name = ''v2.0.0'', tag_commit_sha = ''c2''\<rparr>
     [commit_on ''c5'' ''2016-02-04T00:00:00Z'' ''fix'',
      commit_on ''c4'' ''2016-02-03T00:00:00Z'' ''beta'',
      commit_on ''c3'' ''2016-02-02T00:00:00Z'' ''feature'',
      commit_on ''c2'' ''2016-02-01T00:00:00Z'' ''release 2.0.0''] \<and>
   getRepoCommitsSinceTag example_this example_host widget
      \<lparr>tag_name = ''v2.0.0'', tag_commit_sha = ''c2''\<rparr> =
     {({#''https://u:t@api.github.com/repos/acme/widget/commits/c2'',
         ''https://u:t@api.github.com/repos/acme/widget/commits?since=2016-02-01T00:00:00Z''#},
       Inr \<lparr>dr_repo = widget, dr_tag = \<lparr>tag_name = ''v2.0.0'', tag_commit_sha = ''c2''\<rparr>,
              dr_commits = map cr_commit
                [commit_on ''c5'' ''2016-02-04T00:00:00Z'' ''fix'',
                 commit_on ''c4'' ''2016-02-03T00:00:00Z'' ''beta'',
                 commit_on ''c3'' ''2016-02-02T00:00:00Z'' ''feature'']\<rparr>)} \<and>
   ''c2'' \<notin> cr_sha ` set
     [commit_on ''c5'' ''2016-02-04T00:00:00Z'' ''fix'',
      commit_on ''c4'' ''2016-02-03T00:00:00Z'' ''beta'',
      commit_on ''c3'' ''2016-02-02T00:00:00Z'' ''feature'']"
proof -
  let ?tag = "\<lparr>tag_name = ''v2.0.0'', tag_commit_sha = ''c2''\<rparr>"
  let ?kept = "[commit_on ''c5'' ''2016-02-04T00:00:00Z'' ''fix'',
      commit_on ''c4'' ''2016-02-03T00:00:00Z'' ''beta'',
      commit_on ''c3'' ''2016-02-02T00:00:00Z'' ''feature'']"
  let ?cs = "?kept @ [commit_on ''c2'' ''2016-02-01T00:00:00Z'' ''release 2.0.0'']"
  let ?res1 = "\<lparr>status = 200, json = commit_on ''c2'' ''2016-02-01T00:00:00Z'' ''release 2.0.0'',
      json_message = []\<rparr>"
  let ?res2 = "\<lparr>status = 200, json = ?cs, json_message = []\<rparr>"
  let ?d = "\<lparr>dr_repo = widget, dr_tag = ?tag, dr_commits = map cr_commit ?kept\<rparr>"
  let ?t = "{#''https://u:t@api.github.com/repos/acme/widget/commits/c2'',
      ''https://u:t@api.github.com/repos/acme/widget/commits?since=2016-02-01T00:00:00Z''#}"
  have run: "getRepoCommitsSinceTag example_this example_host widget ?tag = {(?t, Inr ?d)}"
    by (simp add: getRepoCommitsSinceTag_eq example_defs)
  then have h1: "(?t, Inr ?d) \<in> getRepoCommitsSinceTag example_this example_host widget ?tag"
    by simp
  have h2: "commit_at example_host (ROOTURL example_this @ ''/repos/'' @ full_name widget @
      ''/commits/'' @ tag_commit_sha ?tag) = Inr ?res1"
    by (simp add: example_defs)
  have h3: "commits_at example_host (ROOTURL example_this @ ''/repos/'' @ full_name widget @
      ''/commits?since='' @ author_date (gc_author (cr_commit (json ?res1)))) = Inr ?res2"
    by (simp add: example_defs)
  have last: "tagged_commit_last ?tag ?cs"
    by (simp add: tagged_commit_last_def commit_on_def)
  then have h4: "tagged_commit_last ?tag (json ?res2)" by simp
  from getRepoCommitsSinceTag_excludes_tagged [OF h1 h2 h3 h4]
  obtain kept tagged where k: "?cs = kept @ [tagged]" "dr_commits ?d = map cr_commit kept"
    "\<forall>c \<in> set kept. cr_sha c \<noteq> tag_commit_sha ?tag"
    by auto
  from k(1) have "kept = ?kept" by simp
  with k(3) have "''c2'' \<notin> cr_sha ` set ?kept" by auto
  with run last show ?thesis by simp
qed

text \<open>
  C3. When both requests succeed, \<^verbatim>\<open>getRepoCommitsSinceTag\<close> resolves with the list the
  host returned for the \<^verbatim>\<open>since\<close> query without its last element, and with nothing else
  removed. A list of no or one element gives no commits, and the promise still resolves.
\<close>

theorem getRepoCommitsSinceTag_drops_last:
  assumes "commit_at h (ROOTURL this @ ''/repos/'' @ full_name repo @ ''/commits/'' @
             tag_commit_sha tag) = Inr res1"
    and "status res1 = 200"
    and "commits_at h (ROOTURL this @ ''/repos/'' @ full_name repo @ ''/commits?since='' @
           author_date (gc_author (cr_commit (json res1)))) = Inr res2"
    and "status res2 = 200"
  shows "\<exists>d. getRepoCommitsSinceTag this h repo tag =
             {({#ROOTURL this @ ''/repos/'' @ full_name repo @ ''/commits/'' @ tag_commit_sha tag,
                 ROOTURL this @ ''/repos/'' @ full_name repo @ ''/commits?since='' @
                   author_date (gc_author (cr_commit (json res1)))#}, Inr d)} \<and>
           dr_repo d = repo \<and> dr_tag d = tag \<and>
           dr_commits d = map cr_commit (take (length (json res2) - 1) (json res2)) \<and>
           (\<forall>kept l. json res2 = kept @ [l] \<longrightarrow> dr_commits d = map cr_commit kept) \<and>
           (length (json res2) \<le> 1 \<longrightarrow> dr_commits d = [])"
proof -
  let ?cs = "json res2"
  let ?d = "\<lparr>dr_repo = repo, dr_tag = tag, dr_commits = map cr_commit (butlast ?cs)\<rparr>"
  have "getRepoCommitsSinceTag this h repo tag =
      {({#ROOTURL this @ ''/repos/'' @ full_name repo @ ''/commits/'' @ tag_commit_sha tag,
          ROOTURL this @ ''/repos/'' @ full_name repo @ ''/commits?since='' @
            author_date (gc_author (cr_commit (json res1)))#},
        Inr ?d)}"
    unfolding getRepoCommitsSinceTag_eq Let_def using assms by simp
  moreover have "dr_commits ?d = map cr_commit (take (length ?cs - 1) ?cs)"
    by (simp add: butlast_conv_take)
  moreover have "\<forall>kept l. ?cs = kept @ [l] \<longrightarrow> dr_commits ?d = map cr_commit kept"
    by simp
  moreover have "length ?cs \<le> 1 \<longrightarrow> dr_commits ?d = []"
    by (cases ?cs) auto
  moreover have "dr_repo ?d = repo" "dr_tag ?d = tag" by simp_all
  ultimately show ?thesis by blast
qed

theorem getRepoCommitsSinceTag_drops_last_witness:
  "getRepoCommitsSinceTag example_this example_host fresh
      \<lparr>tag_name = ''1.0.0'', tag_commit_sha = ''f1''\<rparr> =
     {({#''https://u:t@api.github.com/repos/acme/fresh/commits/f1'',
         ''https://u:t@api.github.com/repos/acme/fresh/commits?since=2016-03-01T00:00:00Z''#},
       Inr \<lparr>dr_repo = fresh, dr_tag = \<lparr>tag_name = ''1.0.0'', tag_commit_sha = ''f1''\<rparr>,
              dr_commits = []\<rparr>)}"
proof -
  let ?tag = "\<lparr>tag_name = ''1.0.0'', tag_commit_sha = ''f1''\<rparr>"
  let ?res1 = "\<lparr>status = 200, json = commit_on ''f1'' ''2016-03-01T00:00:00Z'' ''release 1.0.0'',
      json_message = []\<rparr>"
  let ?res2 = "\<lparr>status = 200, json = [commit_on ''f1'' ''2016-03-01T00:00:00Z'' ''release 1.0.0''],
      json_message = []\<rparr>"
  have h1: "commit_at example_host (ROOTURL example_this @ ''/repos/'' @ full_name fresh @
      ''/commits/'' @ tag_commit_sha ?tag) = Inr ?res1"
    by (simp add: example_defs)
  have h2: "status ?res1 = 200" by simp
  have h3: "commits_at example_host (ROOTURL example_this @ ''/repos/'' @ full_name fresh @
      ''/commits?since='' @ author_date (gc_author (cr_commit (json ?res1)))) = Inr ?res2"
    by (simp add: example_defs)
  have h4: "status ?res2 = 200" by simp
  from getRepoCommitsSinceTag_drops_last [OF h1 h2 h3 h4]
  obtain d where d: "getRepoCommitsSinceTag example_this example_host fresh ?tag =
      {({#ROOTURL example_this @ ''/repos/'' @ full_name fresh @ ''/commits/'' @
            tag_commit_sha ?tag,
          ROOTURL example_this @ ''/repos/'' @ full_name fresh @ ''/commits?since='' @
            author_date (gc_author (cr_commit (json ?res1)))#}, Inr d)}"
    "dr_repo d = fresh" "dr_tag d = ?tag" "dr_commits d = []"
    by auto
  from d(2-4) have "d = \<lparr>dr_repo = fresh, dr_tag = ?tag, dr_commits = []\<rparr>"
    by (cases d) simp
  with d(1) show ?thesis
    by (simp add: example_this_def fresh_def commit_on_def)
qed

subsection \<open>The latest tag\<close>

text \<open>
  What the code selects: when the host returns a tag list, \<^verbatim>\<open>getLatestTag\<close> resolves with
  \<^verbatim>\<open>{repo, tag}\<close>, where \<^verbatim>\<open>tag\<close> is the first element of the list, in the order of the host, whose name matches
  \<^verbatim>\<open>VERSION_RE\<close>. When no name matches it still resolves, with \<^verbatim>\<open>tag\<close> undefined.
\<close>

lemma getLatestTag_first_match:
  assumes "tags_at h (ROOTURL this @ ''/repos/'' @ full_name repo @ ''/tags'') = Inr res"
    and "status res = 200"
  shows "\<exists>found. getLatestTag this h repo =
             {({#ROOTURL this @ ''/repos/'' @ full_name repo @ ''/tags''#},
               Inr \<lparr>tr_repo = repo, tr_tag = found\<rparr>)} \<and>
           (case found of
              None \<Rightarrow> \<forall>t \<in> set (json res). \<not> test VERSION_RE (tag_name t)
            | Some t \<Rightarrow> \<exists>before after. json res = before @ t # after \<and>
                test VERSION_RE (tag_name t) \<and>
                (\<forall>b \<in> set before. \<not> test VERSION_RE (tag_name b)))"
proof -
  let ?found = "find (\<lambda>tag. test VERSION_RE (tag_name tag)) (json res)"
  have "getLatestTag this h repo =
      {({#ROOTURL this @ ''/repos/'' @ full_name repo @ ''/tags''#},
        Inr \<lparr>tr_repo = repo, tr_tag = ?found\<rparr>)}"
    unfolding getLatestTag_eq using assms by simp
  moreover have "case ?found of
      None \<Rightarrow> \<forall>t \<in> set (json res). \<not> test VERSION_RE (tag_name t)
    | Some t \<Rightarrow> \<exists>before after. json res = before @ t # after \<and>
        test VERSION_RE (tag_name t) \<and>
        (\<forall>b \<in> set before. \<not> test VERSION_RE (tag_name b))"
  proof (cases ?found)
    case None
    from None have "\<forall>t \<in> set (json res). \<not> test VERSION_RE (tag_name t)"
      by (simp add: find_None_iff)
    then show ?thesis unfolding None by simp
  next
    case (Some t)
    from find_first_match [OF Some] show ?thesis by (simp add: Some)
  qed
  ultimately show ?thesis by blast
qed

lemma getLatestTag_first_match_example:
  "getLatestTag example_this example_host widget =
     {({#''https://u:t@api.github.com/repos/acme/widget/tags''#},
       Inr \<lparr>tr_repo = widget,
              tr_tag = Some \<lparr>tag_name = ''v2.0.0'', tag_commit_sha = ''c2''\<rparr>\<rparr>)} \<and>
   getLatestTag example_this example_host manual =
     {({#''https://u:t@api.github.com/repos/acme/manual/tags''#},
       Inr \<lparr>tr_repo = manual, tr_tag = None\<rparr>)}"
proof -
  let ?tags = "[\<lparr>tag_name = ''v2.1.0-beta'', tag_commit_sha = ''c4''\<rparr>,
                \<lparr>tag_name = ''v2.0.0'', tag_commit_sha = ''c2''\<rparr>,
                \<lparr>tag_name = ''v1.9.0'', tag_commit_sha = ''c1''\<rparr>]"
  let ?res = "\<lparr>status = 200, json = ?tags, json_message = []\<rparr>"
  let ?res' = "\<lparr>status = 200, json = [\<lparr>tag_name = ''release-1'', tag_commit_sha = ''n1''\<rparr>],
      json_message = []\<rparr>"
  have w: "tags_at example_host (ROOTURL example_this @ ''/repos/'' @ full_name widget @ ''/tags'')
      = Inr ?res"
    by (simp add: example_defs)
  have m: "tags_at example_host (ROOTURL example_this @ ''/repos/'' @ full_name manual @ ''/tags'')
      = Inr ?res'"
    by (simp add: example_defs)
  have s: "status ?res = 200" "status ?res' = 200" by simp_all
  note widget_first = getLatestTag_first_match [OF w s(1)]
  note manual_none = getLatestTag_first_match [OF m s(2)]
  have "getLatestTag example_this example_host widget =
     {({#''https://u:t@api.github.com/repos/acme/widget/tags''#},
       Inr \<lparr>tr_repo = widget,
              tr_tag = Some \<lparr>tag_name = ''v2.0.0'', tag_commit_sha = ''c2''\<rparr>\<rparr>)}"
    by (simp add: getLatestTag_eq example_defs VERSION_RE_def)
  moreover have "getLatestTag example_this example_host manual =
     {({#''https://u:t@api.github.com/repos/acme/manual/tags''#},
       Inr \<lparr>tr_repo = manual, tr_tag = None\<rparr>)}"
    by (simp add: getLatestTag_eq example_defs VERSION_RE_def)
  ultimately show ?thesis using widget_first manual_none by blast
qed

text \<open>
  On a tag list in which every name that \<^verbatim>\<open>VERSION_RE\<close> accepts is an official release,
  \<^verbatim>\<open>getLatestTag\<close> resolves as the specification says.
\<close>

lemma getLatestTag_first_official_release:
  assumes "tags_at h (ROOTURL this @ ''/repos/'' @ full_name repo @ ''/tags'') = Inr res"
    and "status res = 200"
    and "\<And>t. t \<in> set (json res) \<Longrightarrow> test VERSION_RE (tag_name t) \<Longrightarrow>
      test official_release_pattern (tag_name t)"
  shows "getLatestTag this h repo =
      {({#ROOTURL this @ ''/repos/'' @ full_name repo @ ''/tags''#},
        Inr \<lparr>tr_repo = repo,
               tr_tag = find (\<lambda>tag. test official_release_pattern (tag_name tag)) (json res)\<rparr>)}"
  unfolding getLatestTag_eq using assms(1,2) find_official_release [OF assms(3)] by simp

text \<open>
  C4. The specification has \<^verbatim>\<open>getLatestTag\<close> resolve with the first tag, in the order of the host,
  whose name matches the official-release pattern, and without a tag when no name matches.
  The code selects with \<^verbatim>\<open>VERSION_RE\<close>, whose dots match any character. Of the tags
  \<^verbatim>\<open>v1.0b2\<close>, \<^verbatim>\<open>v1.0.0\<close> of \<^verbatim>\<open>acme/beta\<close> the first official release is \<^verbatim>\<open>v1.0.0\<close>, and the code
  resolves with \<^verbatim>\<open>v1.0b2\<close>; for \<^verbatim>\<open>early/preview\<close>, which has no official release, the code resolves
  with \<^verbatim>\<open>v1.0b2\<close> where the specification has no tag.
\<close>

theorem getLatestTag_not_first_official_release:
  "tags_at example_host ''https://u:t@api.github.com/repos/acme/beta/tags'' =
     ok [\<lparr>tag_name = ''v1.0b2'', tag_commit_sha = ''b2''\<rparr>,
         \<lparr>tag_name = ''v1.0.0'', tag_commit_sha = ''b1''\<rparr>] \<and>
   find (\<lambda>tag. test official_release_pattern (tag_name tag))
     [\<lparr>tag_name = ''v1.0b2'', tag_commit_sha = ''b2''\<rparr>,
      \<lparr>tag_name = ''v1.0.0'', tag_commit_sha = ''b1''\<rparr>] =
     Some \<lparr>tag_name = ''v1.0.0'', tag_commit_sha = ''b1''\<rparr> \<and>
   getLatestTag example_this example_host beta =
     {({#''https://u:t@api.github.com/repos/acme/beta/tags''#},
       Inr \<lparr>tr_repo = beta,
              tr_tag = Some \<lparr>tag_name = ''v1.0b2'', tag_commit_sha = ''b2''\<rparr>\<rparr>)} \<and>
   tags_at preview_host ''https://u:t@api.github.com/repos/early/preview/tags'' =
     ok preview_tags \<and>
   find (\<lambda>tag. test official_release_pattern (tag_name tag)) preview_tags = None \<and>
   getLatestTag example_this preview_host preview =
     {({#''https://u:t@api.github.com/repos/early/preview/tags''#},
       Inr \<lparr>tr_repo = preview,
              tr_tag = Some \<lparr>tag_name = ''v1.0b2'', tag_commit_sha = ''p2''\<rparr>\<rparr>)}"
proof (intro conjI)
  show "tags_at example_host ''https://u:t@api.github.com/repos/acme/beta/tags'' =
     ok [\<lparr>tag_name = ''v1.0b2'', tag_commit_sha = ''b2''\<rparr>,
         \<lparr>tag_name = ''v1.0.0'', tag_commit_sha = ''b1''\<rparr>]"
    by (simp add: example_host_def)
  show "find (\<lambda>tag. test official_release_pattern (tag_name tag))
     [\<lparr>tag_name = ''v1.0b2'', tag_commit_sha = ''b2''\<rparr>,
      \<lparr>tag_name = ''v1.0.0'', tag_commit_sha = ''b1''\<rparr>] =
     Some \<lparr>tag_name = ''v1.0.0'', tag_commit_sha = ''b1''\<rparr>"
    by (simp add: official_release_pattern_def)
  show "getLatestTag example_this example_host beta =
     {({#''https://u:t@api.github.com/repos/acme/beta/tags''#},
       Inr \<lparr>tr_repo = beta,
              tr_tag = Some \<lparr>tag_name = ''v1.0b2'', tag_commit_sha = ''b2''\<rparr>\<rparr>)}"
    by (simp add: getLatestTag_eq example_defs VERSION_RE_def)
  show "tags_at preview_host ''https://u:t@api.github.com/repos/early/preview/tags'' =
     ok preview_tags"
    by (simp add: preview_host_def)
  show "find (\<lambda>tag. test official_release_pattern (tag_name tag)) preview_tags = None"
    by (rule preview_no_official_release)
  show "getLatestTag example_this preview_host preview =
     {({#''https://u:t@api.github.com/repos/early/preview/tags''#},
       Inr \<lparr>tr_repo = preview,
              tr_tag = Some \<lparr>tag_name = ''v1.0b2'', tag_commit_sha = ''p2''\<rparr>\<rparr>)}"
    by (rule preview_tag)
qed

subsection \<open>The repositories of an account\<close>

text \<open>
  C5. Let \<open>numRepos\<close> be the public plus the private repositories of the account, the
  private ones counting as 0 when absent. When it is 0, \<^verbatim>\<open>getRepos\<close> rejects with an error
  that names the account, and issues no request. Otherwise it settles, and in every way it
  settles it has issued the requests for the pages 1 to \<open>numRepos div 100 + 1\<close>, one each;
  when all of them succeed it resolves with their bodies, concatenated in the order of
  the pages.
\<close>

theorem getRepos_pages:
  assumes "numRepos = public_repos user +
      (case total_private_repos user of None \<Rightarrow> 0 | Some n \<Rightarrow> n)"
    and "base = ROOTURL this @ (if user_type user = ''User'' then ''/users/'' else ''/orgs/'') @
      login user @ ''/repos?per_page=100''"
    and "urls = map (\<lambda>p. base @ ''&page='' @ number_to_string p) [1..<numRepos div 100 + 2]"
  shows "(numRepos = 0 \<longrightarrow>
            getRepos this h user = {({#}, Inl (Error (login user @ '' has no repos'')))}) \<and>
         (numRepos \<noteq> 0 \<longrightarrow>
            getRepos this h user \<noteq> {} \<and> length urls = numRepos div 100 + 1 \<and>
            (\<forall>out \<in> getRepos this h user. fst out = mset urls)) \<and>
         (numRepos \<noteq> 0 \<and>
          (\<forall>p. 1 \<le> p \<and> p \<le> numRepos div 100 + 1 \<longrightarrow>
             repos_at h (base @ ''&page='' @ number_to_string p) = Inr (page p) \<and>
             status (page p) = 200) \<longrightarrow>
            getRepos this h user =
              {(mset urls, Inr (concat (map (\<lambda>p. json (page p)) [1..<numRepos div 100 + 2])))})"
proof (intro conjI impI)
  assume "numRepos = 0"
  then show "getRepos this h user = {({#}, Inl (Error (login user @ '' has no repos'')))}"
    by (simp add: getRepos_eq [OF assms(1,2)])
next
  show "length urls = numRepos div 100 + 1" by (simp add: assms(3))
next
  let ?bs = "map (page_branch h base) [1..<numRepos div 100 + 2]"
  assume "numRepos \<noteq> 0"
  then have eq: "getRepos this h user =
      (\<lambda>(t, r). (t, map_sum id concat r)) ` Promise_all (map (\<lambda>b. {b}) ?bs)"
    by (simp add: getRepos_eq [OF assms(1,2)] then_promise_value)
  have requests: "sum_list (map fst ?bs) = mset urls"
    by (simp add: assms(3) page_branch_def comp_def sum_list_singletons)
  from Promise_all_settles [of ?bs] show "getRepos this h user \<noteq> {}"
    unfolding eq by auto
  show "\<forall>out \<in> getRepos this h user. fst out = mset urls"
  proof
    fix out
    assume "out \<in> getRepos this h user"
    then obtain out' where "out' \<in> Promise_all (map (\<lambda>b. {b}) ?bs)" "fst out = fst out'"
      unfolding eq by auto
    with Promise_all_requests [of out' ?bs] requests show "fst out = mset urls" by simp
  qed
next
  let ?ps = "[1..<numRepos div 100 + 2]"
  let ?bs = "map (page_branch h base) ?ps"
  assume a: "numRepos \<noteq> 0 \<and>
      (\<forall>p. 1 \<le> p \<and> p \<le> numRepos div 100 + 1 \<longrightarrow>
         repos_at h (base @ ''&page='' @ number_to_string p) = Inr (page p) \<and>
         status (page p) = 200)"
  then have eq: "getRepos this h user =
      (\<lambda>(t, r). (t, map_sum id concat r)) ` Promise_all (map (\<lambda>b. {b}) ?bs)"
    by (simp add: getRepos_eq [OF assms(1,2)] then_promise_value)
  have requests: "sum_list (map fst ?bs) = mset urls"
    by (simp add: assms(3) page_branch_def comp_def sum_list_singletons)
  from a have "\<forall>p \<in> set ?ps. snd (page_branch h base p) = Inr (json (page p))"
    by (auto simp: page_branch_def)
  then have "map snd ?bs = map Inr (map (\<lambda>p. json (page p)) ?ps)"
    by (simp add: comp_def)
  then have "Promise_all (map (\<lambda>b. {b}) ?bs) =
      {(sum_list (map fst ?bs), Inr (map (\<lambda>p. json (page p)) ?ps))}"
    by (rule Promise_all_all_resolved)
  then show "getRepos this h user =
      {(mset urls, Inr (concat (map (\<lambda>p. json (page p)) ?ps)))}"
    unfolding eq requests by simp
qed

theorem getRepos_pages_witness:
  "getRepos example_this example_host (account ''nobody'' ''User'' 0 None) =
     {({#}, Inl (Error ''nobody has no repos''))} \<and>
   getRepos example_this example_host (account ''big'' ''User'' 100 None) =
     {({#''https://u:t@api.github.com/users/big/repos?per_page=100&page=1'',
         ''https://u:t@api.github.com/users/big/repos?per_page=100&page=2''#},
       Inr [widget, fresh, manual])}"
proof -
  let ?nobody = "account ''nobody'' ''User'' 0 None"
  let ?big = "account ''big'' ''User'' 100 None"
  let ?base = "ROOTURL example_this @
      (if user_type ?big = ''User'' then ''/users/'' else ''/orgs/'') @ login ?big @
      ''/repos?per_page=100''"
  let ?page = "\<lambda>p::nat. \<lparr>status = 200, json = (if p = 1 then [widget, fresh] else [manual]),
      json_message = []\<rparr>"
  have digits: "number_to_string 1 = ''1''" "number_to_string (Suc 0) = ''1''"
    "number_to_string 2 = ''2''" "number_to_string (Suc (Suc 0)) = ''2''"
    by (simp_all add: number_to_string.simps)
  have none: "public_repos ?nobody +
      (case total_private_repos ?nobody of None \<Rightarrow> 0 | Some n \<Rightarrow> n) = 0"
    by (simp add: account_def)
  have many: "public_repos ?big +
      (case total_private_repos ?big of None \<Rightarrow> 0 | Some n \<Rightarrow> n) = 100"
    by (simp add: account_def)
  have pages: "\<forall>p. 1 \<le> p \<and> p \<le> 100 div 100 + 1 \<longrightarrow>
      repos_at example_host (?base @ ''&page='' @ number_to_string p) = Inr (?page p) \<and>
      status (?page p) = 200"
  proof (intro allI impI)
    fix p :: nat
    assume "1 \<le> p \<and> p \<le> 100 div 100 + 1"
    then have "p = 1 \<or> p = 2" by auto
    then show "repos_at example_host (?base @ ''&page='' @ number_to_string p) = Inr (?page p) \<and>
        status (?page p) = 200"
      by (auto simp: digits example_this_def example_host_def account_def ok_def)
  qed
  have "getRepos example_this example_host ?nobody =
      {({#}, Inl (Error (login ?nobody @ '' has no repos'')))}"
    by (rule getRepos_pages [OF none [symmetric] refl refl, THEN conjunct1, THEN mp]) simp
  moreover have "getRepos example_this example_host ?big =
      {(mset (map (\<lambda>p. ?base @ ''&page='' @ number_to_string p) [1..<100 div 100 + 2]),
        Inr (concat (map (\<lambda>p. json (?page p)) [1..<100 div 100 + 2])))}"
    by (rule getRepos_pages [OF many [symmetric] refl refl, where page = ?page,
          THEN conjunct2, THEN conjunct2, THEN mp])
      (intro conjI pages, simp)
  moreover have "[1..<100 div 100 + 2] = [1, 2::nat]"
    by (simp add: upt_rec)
  ultimately show ?thesis
    by (simp add: digits example_this_def account_def)
qed

subsection \<open>All repositories of an owner\<close>

text \<open>
  What the code keeps: every list \<^verbatim>\<open>commitsForOwner\<close> resolves with is, entry by entry
  and in the same order, made from a subsequence of the repositories of the account that
  are not forks: each entry carries the full name of its repository, which is not a fork and for which
  \<^verbatim>\<open>getLatestTag\<close> found a tag, the one the entry names, and the entry has at least one
  commit.
\<close>

lemma commitsForOwner_filters:
  assumes "(T, Inr out) \<in> commitsForOwner this h owner"
  shows "\<exists>res t repos kept.
      user_at h (ROOTURL this @ ''/users/'' @ owner) = Inr res \<and> status res = 200 \<and>
      (t, Inr repos) \<in> getRepos this h (json res) \<and>
      subseq kept (filter (\<lambda>repo. \<not> fork repo) repos) \<and>
      list_all2 (\<lambda>entry repo.
          res_repo entry = full_name repo \<and> \<not> fork repo \<and>
          (\<exists>t' result tag. (t', Inr result) \<in> getLatestTag this h repo \<and>
             tr_tag result = Some tag \<and> res_tag entry = tag_name tag) \<and>
          numCommits entry \<noteq> 0 \<and> res_commits entry \<noteq> []) out kept"
proof -
  from assms have "(T, Inr out) \<in>
      then_promise
        (then_promise
          (then_promise
            (then_promise
              (then_promise
                (then_promise
                  (then_promise
                    (then_promise
                      (fetch (user_at h) (ROOTURL this @ ''/users/'' @ owner))
                      handleResponse)
                    (getRepos this h))
                  (\<lambda>repos. Promise_resolve (filter (\<lambda>repo. \<not> fork repo) repos)))
                (\<lambda>repos. Promise_all (map (getLatestTag this h) repos)))
              (\<lambda>results. Promise_resolve (filter (\<lambda>result. tr_tag result \<noteq> None) results)))
            (\<lambda>results. Promise_all
               (map (\<lambda>result.
                       getRepoCommitsSinceTag this h (tr_repo result) (the (tr_tag result)))
                  results)))
          (\<lambda>results. Promise_resolve
             (filter (\<lambda>result. length (dr_commits result) \<noteq> 0) results)))
        (\<lambda>results. Promise_resolve (map transformResult results))"
    unfolding commitsForOwner_def catch_promise_rethrow .
  from owner_scan_filters [OF this] obtain t2 repos kept where
    listed: "(t2, Inr repos) \<in> then_promise
        (then_promise (fetch (user_at h) (ROOTURL this @ ''/users/'' @ owner)) handleResponse)
        (getRepos this h)"
    and kept: "subseq kept (filter (\<lambda>repo. \<not> fork repo) repos)"
      "list_all2 (\<lambda>entry repo.
          res_repo entry = full_name repo \<and> \<not> fork repo \<and>
          (\<exists>t' result tag. (t', Inr result) \<in> getLatestTag this h repo \<and>
             tr_tag result = Some tag \<and> res_tag entry = tag_name tag) \<and>
          numCommits entry \<noteq> 0 \<and> res_commits entry \<noteq> []) out kept"
    by blast
  from then_promise_resolved_iff [THEN iffD1, OF listed] obtain t0 user t1 where
    user: "(t0, Inr user) \<in> then_promise
        (fetch (user_at h) (ROOTURL this @ ''/users/'' @ owner)) handleResponse"
    and repos: "(t1, Inr repos) \<in> getRepos this h user"
    by blast
  from user obtain res where "user_at h (ROOTURL this @ ''/users/'' @ owner) = Inr res"
    "status res = 200" "user = json res"
    unfolding fetch_handleResponse by (auto split: sum.splits if_splits)
  with repos kept show ?thesis by blast
qed

lemma commitsForOwner_filters_example:
  "commitsForOwner example_this example_host ''acme'' =
     {({#''https://u:t@api.github.com/users/acme'',
         ''https://u:t@api.github.com/orgs/acme/repos?per_page=100&page=1'',
         ''https://u:t@api.github.com/repos/acme/widget/tags'',
         ''https://u:t@api.github.com/repos/acme/manual/tags'',
         ''https://u:t@api.github.com/repos/acme/fresh/tags'',
         ''https://u:t@api.github.com/repos/acme/widget/commits/c2'',
         ''https://u:t@api.github.com/repos/acme/widget/commits?since=2016-02-01T00:00:00Z'',
         ''https://u:t@api.github.com/repos/acme/fresh/commits/f1'',
         ''https://u:t@api.github.com/repos/acme/fresh/commits?since=2016-03-01T00:00:00Z''#},
       Inr [widget_entry])} \<and>
   (\<exists>res t repos kept.
      user_at example_host (ROOTURL example_this @ ''/users/'' @ ''acme'') = Inr res \<and>
      status res = 200 \<and>
      (t, Inr repos) \<in> getRepos example_this example_host (json res) \<and>
      subseq kept (filter (\<lambda>repo. \<not> fork repo) repos) \<and>
      list_all2 (\<lambda>entry repo.
          res_repo entry = full_name repo \<and> \<not> fork repo \<and>
          (\<exists>t' result tag. (t', Inr result) \<in> getLatestTag example_this example_host repo \<and>
             tr_tag result = Some tag \<and> res_tag entry = tag_name tag) \<and>
          numCommits entry \<noteq> 0 \<and> res_commits entry \<noteq> []) [widget_entry] kept)"
proof (rule conjI)
  let ?T = "{#''https://u:t@api.github.com/users/acme'',
         ''https://u:t@api.github.com/orgs/acme/repos?per_page=100&page=1'',
         ''https://u:t@api.github.com/repos/acme/widget/tags'',
         ''https://u:t@api.github.com/repos/acme/manual/tags'',
         ''https://u:t@api.github.com/repos/acme/fresh/tags'',
         ''https://u:t@api.github.com/repos/acme/widget/commits/c2'',
         ''https://u:t@api.github.com/repos/acme/widget/commits?since=2016-02-01T00:00:00Z'',
         ''https://u:t@api.github.com/repos/acme/fresh/commits/f1'',
         ''https://u:t@api.github.com/repos/acme/fresh/commits?since=2016-03-01T00:00:00Z''#}"
  show run: "commitsForOwner example_this example_host ''acme'' = {(?T, Inr [widget_entry])}"
    by (rule acme_scan)
  then have "(?T, Inr [widget_entry]) \<in> commitsForOwner example_this example_host ''acme''"
    by simp
  then show "\<exists>res t repos kept.
      user_at example_host (ROOTURL example_this @ ''/users/'' @ ''acme'') = Inr res \<and>
      status res = 200 \<and>
      (t, Inr repos) \<in> getRepos example_this example_host (json res) \<and>
      subseq kept (filter (\<lambda>repo. \<not> fork repo) repos) \<and>
      list_all2 (\<lambda>entry repo.
          res_repo entry = full_name repo \<and> \<not> fork repo \<and>
          (\<exists>t' result tag. (t', Inr result) \<in> getLatestTag example_this example_host repo \<and>
             tr_tag result = Some tag \<and> res_tag entry = tag_name tag) \<and>
          numCommits entry \<noteq> 0 \<and> res_commits entry \<noteq> []) [widget_entry] kept"
    by (rule commitsForOwner_filters)
qed

text \<open>
  The same holds of the older copy of the file, with the list of the single request in
  the place of the list of \<^verbatim>\<open>getRepos\<close>.
\<close>

lemma commitsForOwner_part_000_filters:
  assumes "(T, Inr out) \<in> commitsForOwner_part_000 this h owner"
  shows "\<exists>res kept.
      repos_at h (ROOTURL this @ ''/users/'' @ owner @ ''/repos'') = Inr res \<and>
      status res = 200 \<and>
      subseq kept (filter (\<lambda>repo. \<not> fork repo) (json res)) \<and>
      list_all2 (\<lambda>entry repo.
          res_repo entry = full_name repo \<and> \<not> fork repo \<and>
          (\<exists>t' result tag. (t', Inr result) \<in> getLatestTag this h repo \<and>
             tr_tag result = Some tag \<and> res_tag entry = tag_name tag) \<and>
          numCommits entry \<noteq> 0 \<and> res_commits entry \<noteq> []) out kept"
proof -
  from assms have "(T, Inr out) \<in>
      then_promise
        (then_promise
          (then_promise
            (then_promise
              (then_promise
                (then_promise
                  (then_promise
                    (fetch (repos_at h) (ROOTURL this @ ''/users/'' @ owner @ ''/repos''))
                    handleResponse)
                  (\<lambda>repos. Promise_resolve (filter (\<lambda>repo. \<not> fork repo) repos)))
                (\<lambda>repos. Promise_all (map (getLatestTag this h) repos)))
              (\<lambda>results. Promise_resolve (filter (\<lambda>result. tr_tag result \<noteq> None) results)))
            (\<lambda>results. Promise_all
               (map (\<lambda>result.
                       getRepoCommitsSinceTag this h (tr_repo result) (the (tr_tag result)))
                  results)))
          (\<lambda>results. Promise_resolve
             (filter (\<lambda>result. length (dr_commits result) \<noteq> 0) results)))
        (\<lambda>results. Promise_resolve (map transformResult results))"
    unfolding commitsForOwner_part_000_def catch_promise_rethrow .
  from owner_scan_filters [OF this] obtain t repos kept where
    listed: "(t, Inr repos) \<in> then_promise
        (fetch (repos_at h) (ROOTURL this @ ''/users/'' @ owner @ ''/repos'')) handleResponse"
    and kept: "subseq kept (filter (\<lambda>repo. \<not> fork repo) repos)"
      "list_all2 (\<lambda>entry repo.
          res_repo entry = full_name repo \<and> \<not> fork repo \<and>
          (\<exists>t' result tag. (t', Inr result) \<in> getLatestTag this h repo \<and>
             tr_tag result = Some tag \<and> res_tag entry = tag_name tag) \<and>
          numCommits entry \<noteq> 0 \<and> res_commits entry \<noteq> []) out kept"
    by blast
  from listed obtain res where
    "repos_at h (ROOTURL this @ ''/users/'' @ owner @ ''/repos'') = Inr res"
    "status res = 200" "repos = json res"
    unfolding fetch_handleResponse by (auto split: sum.splits if_splits)
  with kept show ?thesis by blast
qed

text \<open>
  C6. The specification has \<^verbatim>\<open>commitsForOwner\<close> publish no entry for a fork, for a repository
  without a qualifying tag, or with an empty commit sequence, and keep the order of the
  repositories. Forks and empty sequences are left out and the order is kept (lemma
  \<open>commitsForOwner_filters\<close>), but a tag qualifies for the code when \<^verbatim>\<open>VERSION_RE\<close> accepts it:
  \<^verbatim>\<open>early/preview\<close>, which is not a fork and has no official release, gets an entry, named after
  its tag \<^verbatim>\<open>v1.0b2\<close>, in \<^verbatim>\<open>lib/index.js\<close> and in the older copy alike.
\<close>

theorem commitsForOwner_keeps_unofficial_release:
  "tags_at preview_host ''https://u:t@api.github.com/repos/early/preview/tags'' =
     ok preview_tags \<and>
   find (\<lambda>tag. test official_release_pattern (tag_name tag)) preview_tags = None \<and>
   commitsForOwner example_this preview_host ''early'' =
     {({#''https://u:t@api.github.com/users/early'',
         ''https://u:t@api.github.com/users/early/repos?per_page=100&page=1'',
         ''https://u:t@api.github.com/repos/early/preview/tags'',
         ''https://u:t@api.github.com/repos/early/preview/commits/p2'',
         ''https://u:t@api.github.com/repos/early/preview/commits?since=2016-04-01T00:00:00Z''#},
       Inr [preview_entry])} \<and>
   commitsForOwner_part_000 example_this preview_host ''early'' =
     {({#''https://u:t@api.github.com/users/early/repos'',
         ''https://u:t@api.github.com/repos/early/preview/tags'',
         ''https://u:t@api.github.com/repos/early/preview/commits/p2'',
         ''https://u:t@api.github.com/repos/early/preview/commits?since=2016-04-01T00:00:00Z''#},
       Inr [preview_entry])} \<and>
   res_repo preview_entry = full_name preview"
proof (intro conjI)
  show "tags_at preview_host ''https://u:t@api.github.com/repos/early/preview/tags'' =
     ok preview_tags"
    by (simp add: preview_host_def)
  show "find (\<lambda>tag. test official_release_pattern (tag_name tag)) preview_tags = None"
    by (rule preview_no_official_release)
  show "commitsForOwner example_this preview_host ''early'' =
     {({#''https://u:t@api.github.com/users/early'',
         ''https://u:t@api.github.com/users/early/repos?per_page=100&page=1'',
         ''https://u:t@api.github.com/repos/early/preview/tags'',
         ''https://u:t@api.github.com/repos/early/preview/commits/p2'',
         ''https://u:t@api.github.com/repos/early/preview/commits?since=2016-04-01T00:00:00Z''#},
       Inr [preview_entry])}"
    unfolding commitsForOwner_def catch_promise_rethrow
    by (simp add: fetch_handleResponse then_promise_resolved then_promise_rejected getRepos_def
        Let_def getLatestTag_eq getRepoCommitsSinceTag_eq Promise_resolve_def
        number_to_string.simps transformResult_def VERSION_RE_def preview_defs)
  show "commitsForOwner_part_000 example_this preview_host ''early'' =
     {({#''https://u:t@api.github.com/users/early/repos'',
         ''https://u:t@api.github.com/repos/early/preview/tags'',
         ''https://u:t@api.github.com/repos/early/preview/commits/p2'',
         ''https://u:t@api.github.com/repos/early/preview/commits?since=2016-04-01T00:00:00Z''#},
       Inr [preview_entry])}"
    unfolding commitsForOwner_part_000_def catch_promise_rethrow
    by (simp add: fetch_handleResponse then_promise_resolved then_promise_rejected
        getLatestTag_eq getRepoCommitsSinceTag_eq Promise_resolve_def
        transformResult_def VERSION_RE_def preview_defs)
  show "res_repo preview_entry = full_name preview"
    by (simp add: preview_entry_def preview_def)
qed

text \<open>
  C7. Let the account and its repositories be fetched. If \<^verbatim>\<open>getLatestTag\<close> rejects for a
  repository that is not a fork, \<^verbatim>\<open>commitsForOwner\<close> settles, and only by rejecting with the
  error of such a call; each of these errors can be the one. If no such call rejects and
  \<^verbatim>\<open>getRepoCommitsSinceTag\<close> rejects for a tagged repository, the same holds with the
  errors of those calls. In both cases no list is returned.
\<close>

theorem commitsForOwner_all_or_nothing:
  assumes "user_at h (ROOTURL this @ ''/users/'' @ owner) = Inr res"
    and "status res = 200"
    and "(t, Inr repos) \<in> getRepos this h (json res)"
    and "tag_errors = {e. \<exists>repo \<in> set repos. \<not> fork repo \<and>
           (\<exists>t'. (t', Inl e) \<in> getLatestTag this h repo)}"
    and "delta_errors = {e. \<exists>repo \<in> set repos. \<not> fork repo \<and>
           (\<exists>t' result tag t''. (t', Inr result) \<in> getLatestTag this h repo \<and>
              tr_tag result = Some tag \<and>
              (t'', Inl e) \<in> getRepoCommitsSinceTag this h repo tag)}"
  shows "(tag_errors \<noteq> {} \<longrightarrow> snd ` commitsForOwner this h owner = Inl ` tag_errors) \<and>
         (tag_errors = {} \<and> delta_errors \<noteq> {} \<longrightarrow>
            snd ` commitsForOwner this h owner = Inl ` delta_errors)"
proof -
  let ?A = "\<lambda>repo. the_elem (getLatestTag this h repo)"
  let ?B = "\<lambda>result. the_elem
      (getRepoCommitsSinceTag this h (tr_repo result) (the (tr_tag result)))"
  define nf where "nf = filter (\<lambda>repo. \<not> fork repo) repos"
  define s3 where "s3 = then_promise
      (then_promise
        (then_promise
          (then_promise
            (fetch (user_at h) (ROOTURL this @ ''/users/'' @ owner)) handleResponse)
          (getRepos this h))
        (\<lambda>repos. Promise_resolve (filter (\<lambda>repo. \<not> fork repo) repos)))
      (\<lambda>repos. Promise_all (map (getLatestTag this h) repos))"
  define s4 where "s4 = then_promise s3
      (\<lambda>results. Promise_resolve (filter (\<lambda>result. tr_tag result \<noteq> None) results))"
  define s5 where "s5 = then_promise s4
      (\<lambda>results. Promise_all (map (\<lambda>result.
          getRepoCommitsSinceTag this h (tr_repo result) (the (tr_tag result))) results))"
  define T1 where "T1 = {#ROOTURL this @ ''/users/'' @ owner#} + t"
  define T3 where "T3 = T1 + sum_list (map fst (map ?A nf))"
  have scan: "commitsForOwner this h owner =
      then_promise
        (then_promise s5
          (\<lambda>results. Promise_resolve
              (filter (\<lambda>result. length (dr_commits result) \<noteq> 0) results)))
        (\<lambda>results. Promise_resolve (map transformResult results))"
    unfolding commitsForOwner_def catch_promise_rethrow s3_def s4_def s5_def ..
  have rejected: "commitsForOwner this h owner = (\<lambda>e. (T, Inl e)) ` E"
    if "s5 = (\<lambda>e. (T, Inl e)) ` E" for T E
    unfolding scan that by (simp only: then_promise_rejected_image)

  have listed: "getRepos this h (json res) = {(t, Inr repos)}"
    using assms(3) by (rule getRepos_settles_once)
  have s0: "then_promise (fetch (user_at h) (ROOTURL this @ ''/users/'' @ owner)) handleResponse
      = {({#ROOTURL this @ ''/users/'' @ owner#}, Inr (json res))}"
    unfolding fetch_handleResponse using assms(1,2) by simp
  have s1: "then_promise {({#ROOTURL this @ ''/users/'' @ owner#}, Inr (json res))}
      (getRepos this h) = {(T1, Inr repos)}"
    unfolding then_promise_resolved listed T1_def by simp
  have s2: "then_promise {(T1, Inr repos)}
      (\<lambda>repos. Promise_resolve (filter (\<lambda>repo. \<not> fork repo) repos)) = {(T1, Inr nf)}"
    unfolding then_promise_resolved_value nf_def ..
  have branches: "map (getLatestTag this h) nf = map (\<lambda>b. {b}) (map ?A nf)"
    unfolding map_map comp_def by (rule map_cong [OF refl]) (rule getLatestTag_the_elem)
  have s3: "s3 = (\<lambda>(t', r'). (T1 + t', r')) ` Promise_all (map (\<lambda>b. {b}) (map ?A nf))"
    unfolding s3_def s0 unfolding s1 unfolding s2 unfolding then_promise_resolved branches ..

  have tag_errors: "tag_errors = {e. Inl e \<in> snd ` set (map ?A nf)}"
  proof -
    have "(\<exists>t'. (t', Inl e) \<in> getLatestTag this h repo) \<longleftrightarrow> snd (?A repo) = Inl e"
      for repo e
      unfolding getLatestTag_member by (metis prod.collapse snd_conv)
    then show ?thesis
      unfolding assms(4) nf_def by (auto simp: image_iff)
  qed

  show ?thesis
  proof (intro conjI impI)
    assume "tag_errors \<noteq> {}"
    then obtain e0 where "Inl e0 \<in> snd ` set (map ?A nf)"
      unfolding tag_errors by auto
    then have "Promise_all (map (\<lambda>b. {b}) (map ?A nf)) =
        (\<lambda>e. (sum_list (map fst (map ?A nf)), Inl e)) ` tag_errors"
      unfolding tag_errors by (rule Promise_all_one_rejected)
    then have s3': "s3 = (\<lambda>e. (T3, Inl e)) ` tag_errors"
      unfolding s3 T3_def by (simp add: image_image)
    then have "s5 = (\<lambda>e. (T3, Inl e)) ` tag_errors"
      unfolding s5_def s4_def by (simp only: then_promise_rejected_image)
    then have "commitsForOwner this h owner = (\<lambda>e. (T3, Inl e)) ` tag_errors"
      by (rule rejected)
    then show "snd ` commitsForOwner this h owner = Inl ` tag_errors"
      by (simp add: image_image)
  next
    assume a: "tag_errors = {} \<and> delta_errors \<noteq> {}"
    define trs where "trs = map (\<lambda>repo. projr (snd (?A repo))) nf"
    define trs' where "trs' = filter (\<lambda>result. tr_tag result \<noteq> None) trs"
    have resolved: "\<exists>result. snd (?A repo) = Inr result" if "repo \<in> set nf" for repo
    proof (cases "snd (?A repo)")
      case (Inl e)
      with that have "e \<in> tag_errors" unfolding tag_errors by force
      with a show ?thesis by simp
    next
      case (Inr result)
      then show ?thesis by blast
    qed
    then have "map (\<lambda>repo. snd (?A repo)) nf = map Inr trs"
      unfolding trs_def by (intro all_resolved) blast
    then have "map snd (map ?A nf) = map Inr trs"
      by (simp add: comp_def)
    then have "Promise_all (map (\<lambda>b. {b}) (map ?A nf)) =
        {(sum_list (map fst (map ?A nf)), Inr trs)}"
      by (rule Promise_all_all_resolved)
    then have "s3 = {(T3, Inr trs)}"
      unfolding s3 T3_def by simp
    then have s4: "s4 = {(T3, Inr trs')}"
      unfolding s4_def trs'_def by (simp add: then_promise_resolved_value)
    have branches': "map (\<lambda>result.
          getRepoCommitsSinceTag this h (tr_repo result) (the (tr_tag result))) trs' =
        map (\<lambda>b. {b}) (map ?B trs')"
      unfolding map_map comp_def
      by (rule map_cong [OF refl]) (rule getRepoCommitsSinceTag_the_elem)
    have s5: "s5 =
        (\<lambda>(t', r'). (T3 + t', r')) ` Promise_all (map (\<lambda>b. {b}) (map ?B trs'))"
      unfolding s5_def s4 then_promise_resolved branches' ..

    have source: "result \<in> set trs' \<longleftrightarrow>
        (\<exists>repo \<in> set nf. \<exists>tag. snd (?A repo) = Inr result \<and> tr_tag result = Some tag)"
      for result
    proof
      assume "result \<in> set trs'"
      then obtain repo tag where "repo \<in> set nf" "result = projr (snd (?A repo))"
        "tr_tag result = Some tag"
        unfolding trs'_def trs_def by auto
      with resolved [of repo] show "\<exists>repo \<in> set nf. \<exists>tag.
          snd (?A repo) = Inr result \<and> tr_tag result = Some tag" by auto
    next
      assume "\<exists>repo \<in> set nf. \<exists>tag. snd (?A repo) = Inr result \<and> tr_tag result = Some tag"
      then obtain repo tag where "repo \<in> set nf" "snd (?A repo) = Inr result"
        "tr_tag result = Some tag" by blast
      then have "result \<in> set trs" "tr_tag result \<noteq> None"
        unfolding trs_def by force+
      then show "result \<in> set trs'" unfolding trs'_def by simp
    qed
    have member: "(t', Inr result) \<in> getLatestTag this h repo \<longleftrightarrow>
        ?A repo = (t', Inr result)" for t' result repo
      by (rule getLatestTag_member)
    have delta_errors: "delta_errors = {e. Inl e \<in> snd ` set (map ?B trs')}"
    proof (rule set_eqI)
      fix e
      show "e \<in> delta_errors \<longleftrightarrow> e \<in> {e. Inl e \<in> snd ` set (map ?B trs')}"
      proof
        assume "e \<in> delta_errors"
        then obtain repo t' result tag t'' where r: "repo \<in> set nf"
          "(t', Inr result) \<in> getLatestTag this h repo" "tr_tag result = Some tag"
          "(t'', Inl e) \<in> getRepoCommitsSinceTag this h repo tag"
          unfolding assms(5) nf_def by auto
        from r(2) have "tr_repo result = repo" by (rule getLatestTag_repo)
        moreover from r(2) have "snd (?A repo) = Inr result" by (simp add: member)
        ultimately have "result \<in> set trs'" "snd (?B result) = Inl e"
          using r by (auto simp: source getRepoCommitsSinceTag_member)
        then show "e \<in> {e. Inl e \<in> snd ` set (map ?B trs')}" by force
      next
        assume "e \<in> {e. Inl e \<in> snd ` set (map ?B trs')}"
        then obtain result where "result \<in> set trs'" and e: "snd (?B result) = Inl e"
          by auto
        then obtain repo tag where r: "repo \<in> set nf" "snd (?A repo) = Inr result"
          "tr_tag result = Some tag"
          unfolding source by blast
        from r(2) have m: "(fst (?A repo), Inr result) \<in> getLatestTag this h repo"
          unfolding member by (metis prod.collapse)
        then have "tr_repo result = repo" by (rule getLatestTag_repo)
        with e r(3) have "(fst (?B result), Inl e) \<in> getRepoCommitsSinceTag this h repo tag"
          unfolding getRepoCommitsSinceTag_member by (metis option.sel prod.collapse)
        moreover from r(1) have "repo \<in> set repos" "\<not> fork repo"
          by (simp_all add: nf_def)
        ultimately show "e \<in> delta_errors"
          using r(3) m unfolding assms(5) by blast
      qed
    qed
    from a obtain e0 where "Inl e0 \<in> snd ` set (map ?B trs')"
      unfolding delta_errors by auto
    then have "Promise_all (map (\<lambda>b. {b}) (map ?B trs')) =
        (\<lambda>e. (sum_list (map fst (map ?B trs')), Inl e)) ` delta_errors"
      unfolding delta_errors by (rule Promise_all_one_rejected)
    then have "s5 = (\<lambda>e. (T3 + sum_list (map fst (map ?B trs')), Inl e)) ` delta_errors"
      unfolding s5 by (simp add: image_image)
    then have "commitsForOwner this h owner =
        (\<lambda>e. (T3 + sum_list (map fst (map ?B trs')), Inl e)) ` delta_errors"
      by (rule rejected)
    then show "snd ` commitsForOwner this h owner = Inl ` delta_errors"
      by (simp add: image_image)
  qed
qed

theorem commitsForOwner_all_or_nothing_witness:
  "snd ` commitsForOwner example_this example_host ''flaky'' = {Inl (Error ''Server Error'')} \<and>
   snd ` commitsForOwner example_this example_host ''stale'' = {Inl (Error ''Not Found'')}"
proof (rule conjI)
  let ?flaky = "\<lparr>status = 200, json = account ''flaky'' ''User'' 2 None, json_message = []\<rparr>"
  let ?stale = "\<lparr>status = 200, json = account ''stale'' ''User'' 2 None, json_message = []\<rparr>"
  let ?tag_errors = "\<lambda>repos. {e. \<exists>repo \<in> set repos. \<not> fork repo \<and>
      (\<exists>t'. (t', Inl e) \<in> getLatestTag example_this example_host repo)}"
  let ?delta_errors = "\<lambda>repos. {e. \<exists>repo \<in> set repos. \<not> fork repo \<and>
      (\<exists>t' result tag t''. (t', Inr result) \<in> getLatestTag example_this example_host repo \<and>
         tr_tag result = Some tag \<and>
         (t'', Inl e) \<in> getRepoCommitsSinceTag example_this example_host repo tag)}"
  have ok: "status ?flaky = 200" "status ?stale = 200" by simp_all
  have flaky: "({#''https://u:t@api.github.com/users/flaky/repos?per_page=100&page=1''#},
      Inr [widget, broken]) \<in> getRepos example_this example_host (json ?flaky)"
    by (simp add: example_repos)
  have stale: "({#''https://u:t@api.github.com/users/stale/repos?per_page=100&page=1''#},
      Inr [orphan, widget]) \<in> getRepos example_this example_host (json ?stale)"
    by (simp add: example_repos)
  have flaky_tags: "?tag_errors [widget, broken] = {Error ''Server Error''}"
    by (auto simp: example_forks example_tags)
  have stale_tags: "?tag_errors [orphan, widget] = {}"
    by (auto simp: example_forks example_tags)
  have stale_deltas: "?delta_errors [orphan, widget] = {Error ''Not Found''}"
    using example_deltas(2)
    by (auto simp: example_forks example_tags example_deltas(1))
  have "snd ` commitsForOwner example_this example_host ''flaky'' =
      Inl ` {Error ''Server Error''}"
    by (rule commitsForOwner_all_or_nothing
          [OF example_users(2) ok(1) flaky flaky_tags [symmetric] refl, THEN conjunct1, THEN mp])
      simp
  then show "snd ` commitsForOwner example_this example_host ''flaky'' =
      {Inl (Error ''Server Error'')}"
    by simp
  have "snd ` commitsForOwner example_this example_host ''stale'' =
      Inl ` {Error ''Not Found''}"
    by (rule commitsForOwner_all_or_nothing
          [OF example_users(3) ok(2) stale stale_tags [symmetric] stale_deltas [symmetric],
            THEN conjunct2, THEN mp])
      simp
  then show "snd ` commitsForOwner example_this example_host ''stale'' =
      {Inl (Error ''Not Found'')}"
    by simp
qed

subsection \<open>One repository\<close>

text \<open>
  What the code rejects: \<^verbatim>\<open>commitsForRepo\<close> rejects a name that has not the shape
  \<^verbatim>\<open>owner/name\<close> with a format error and without a request. For a name of that shape whose repository record is
  fetched: a fork is rejected as a forked repo, after that one request; a repository for
  which \<^verbatim>\<open>getLatestTag\<close> finds no tag is rejected as having no version tag; and otherwise
  the result of \<^verbatim>\<open>getRepoCommitsSinceTag\<close>, when it resolves, is published as one result.
\<close>

lemma commitsForRepo_rejects_in_order:
  assumes "url = ROOTURL this @ ''/repos/'' @ fullName"
  shows "(\<not> owner_name_shape fullName \<longrightarrow>
            commitsForRepo this h fullName =
              {({#}, Inl (Error (''incorrect format: '' @ fullName)))}) \<and>
         (owner_name_shape fullName \<and> repo_at h url = Inr res \<and> status res = 200 \<and>
          fork (json res) \<longrightarrow>
            commitsForRepo this h fullName =
              {({#url#}, Inl (Error ''ignoring forked repo''))}) \<and>
         (owner_name_shape fullName \<and> repo_at h url = Inr res \<and> status res = 200 \<and>
          \<not> fork (json res) \<and> (t, Inr result) \<in> getLatestTag this h (json res) \<and>
          tr_tag result = None \<longrightarrow>
            commitsForRepo this h fullName =
              {({#url#} + t, Inl (Error ''repo has no version tag''))}) \<and>
         (owner_name_shape fullName \<and> repo_at h url = Inr res \<and> status res = 200 \<and>
          \<not> fork (json res) \<and> (t, Inr result) \<in> getLatestTag this h (json res) \<and>
          tr_tag result = Some tag \<and>
          (t', Inr d) \<in> getRepoCommitsSinceTag this h (json res) tag \<longrightarrow>
            commitsForRepo this h fullName =
              {({#url#} + t + t', Inr (transformResult d))})"
proof (intro conjI impI)
  assume "\<not> owner_name_shape fullName"
  then show "commitsForRepo this h fullName =
      {({#}, Inl (Error (''incorrect format: '' @ fullName)))}"
    by (simp add: commitsForRepo_def FULLPATH_RE_shape Promise_reject_def)
next
  assume "owner_name_shape fullName \<and> repo_at h url = Inr res \<and> status res = 200 \<and>
      fork (json res)"
  then show "commitsForRepo this h fullName = {({#url#}, Inl (Error ''ignoring forked repo''))}"
    using assms commitsForRepo_fetched [of fullName h this res]
    by (simp add: FULLPATH_RE_shape)
next
  assume a: "owner_name_shape fullName \<and> repo_at h url = Inr res \<and> status res = 200 \<and>
      \<not> fork (json res) \<and> (t, Inr result) \<in> getLatestTag this h (json res) \<and>
      tr_tag result = None"
  then have "getLatestTag this h (json res) = {(t, Inr result)}"
    by (intro getLatestTag_settles_once) simp
  with a show "commitsForRepo this h fullName =
      {({#url#} + t, Inl (Error ''repo has no version tag''))}"
    using assms commitsForRepo_fetched [of fullName h this res]
    by (simp add: FULLPATH_RE_shape then_promise_resolved then_promise_rejected
        Promise_reject_def)
next
  assume a: "owner_name_shape fullName \<and> repo_at h url = Inr res \<and> status res = 200 \<and>
      \<not> fork (json res) \<and> (t, Inr result) \<in> getLatestTag this h (json res) \<and>
      tr_tag result = Some tag \<and>
      (t', Inr d) \<in> getRepoCommitsSinceTag this h (json res) tag"
  then have tg: "(t, Inr result) \<in> getLatestTag this h (json res)" by simp
  then have l: "getLatestTag this h (json res) = {(t, Inr result)}"
    by (rule getLatestTag_settles_once)
  from tg have r: "tr_repo result = json res"
    unfolding getLatestTag_eq by (auto split: sum.splits if_splits)
  from a have c: "getRepoCommitsSinceTag this h (json res) tag = {(t', Inr d)}"
    by (intro getRepoCommitsSinceTag_settles_once) simp
  from a l r c show "commitsForRepo this h fullName =
      {({#url#} + t + t', Inr (transformResult d))}"
    using assms commitsForRepo_fetched [of fullName h this res]
    by (simp add: FULLPATH_RE_shape then_promise_resolved Promise_resolve_def)
qed

lemma commitsForRepo_rejects_in_order_example:
  "commitsForRepo example_this example_host ''not-a-valid-name'' =
     {({#}, Inl (Error ''incorrect format: not-a-valid-name''))} \<and>
   commitsForRepo example_this example_host ''acme/gadget'' =
     {({#''https://u:t@api.github.com/repos/acme/gadget''#},
       Inl (Error ''ignoring forked repo''))} \<and>
   commitsForRepo example_this example_host ''acme/manual'' =
     {({#''https://u:t@api.github.com/repos/acme/manual'',
         ''https://u:t@api.github.com/repos/acme/manual/tags''#},
       Inl (Error ''repo has no version tag''))} \<and>
   commitsForRepo example_this example_host ''acme/widget'' =
     {({#''https://u:t@api.github.com/repos/acme/widget'',
         ''https://u:t@api.github.com/repos/acme/widget/tags'',
         ''https://u:t@api.github.com/repos/acme/widget/commits/c2'',
         ''https://u:t@api.github.com/repos/acme/widget/commits?since=2016-02-01T00:00:00Z''#},
       Inr \<lparr>res_repo = ''acme/widget'', res_tag = ''v2.0.0'', numCommits = 3,
              res_commits =
                [\<lparr>pc_author = \<lparr>author_date = ''2016-02-04T00:00:00Z'', author_identity = ''dev''\<rparr>,
                    pc_message = ''fix''\<rparr>,
                 \<lparr>pc_author = \<lparr>author_date = ''2016-02-03T00:00:00Z'', author_identity = ''dev''\<rparr>,
                    pc_message = ''beta''\<rparr>,
                 \<lparr>pc_author = \<lparr>author_date = ''2016-02-02T00:00:00Z'', author_identity = ''dev''\<rparr>,
                    pc_message = ''feature''\<rparr>]\<rparr>)}"
proof -
  let ?ok = "\<lambda>x. \<lparr>status = 200, json = x, json_message = []\<rparr>"
  let ?v2 = "\<lparr>tag_name = ''v2.0.0'', tag_commit_sha = ''c2''\<rparr>"
  have shape: "\<not> owner_name_shape ''not-a-valid-name''" "owner_name_shape ''acme/gadget''"
    "owner_name_shape ''acme/manual''" "owner_name_shape ''acme/widget''"
    by (simp_all add: FULLPATH_RE_shape [symmetric] FULLPATH_RE_def)
  have repos: "repo_at example_host (ROOTURL example_this @ ''/repos/'' @ ''acme/gadget'') =
      Inr (?ok gadget)"
    "repo_at example_host (ROOTURL example_this @ ''/repos/'' @ ''acme/manual'') =
      Inr (?ok manual)"
    "repo_at example_host (ROOTURL example_this @ ''/repos/'' @ ''acme/widget'') =
      Inr (?ok widget)"
    by (simp_all add: example_this_def example_host_def ok_def)
  have forks: "fork (json (?ok gadget))" "\<not> fork (json (?ok manual))"
    "\<not> fork (json (?ok widget))"
    by (simp_all add: gadget_def manual_def widget_def)
  have tags: "({#''https://u:t@api.github.com/repos/acme/manual/tags''#},
        Inr \<lparr>tr_repo = manual, tr_tag = None\<rparr>)
      \<in> getLatestTag example_this example_host (json (?ok manual))"
    "({#''https://u:t@api.github.com/repos/acme/widget/tags''#},
        Inr \<lparr>tr_repo = widget, tr_tag = Some ?v2\<rparr>)
      \<in> getLatestTag example_this example_host (json (?ok widget))"
    by (simp_all add: getLatestTag_eq example_defs VERSION_RE_def)
  have delta: "({#''https://u:t@api.github.com/repos/acme/widget/commits/c2'',
         ''https://u:t@api.github.com/repos/acme/widget/commits?since=2016-02-01T00:00:00Z''#},
       Inr \<lparr>dr_repo = widget, dr_tag = ?v2,
              dr_commits = map cr_commit
                [commit_on ''c5'' ''2016-02-04T00:00:00Z'' ''fix'',
                 commit_on ''c4'' ''2016-02-03T00:00:00Z'' ''beta'',
                 commit_on ''c3'' ''2016-02-02T00:00:00Z'' ''feature'']\<rparr>)
      \<in> getRepoCommitsSinceTag example_this example_host (json (?ok widget)) ?v2"
    by (simp add: getRepoCommitsSinceTag_eq example_defs)
  have status: "status (?ok gadget) = 200" "status (?ok manual) = 200"
    "status (?ok widget) = 200"
    by simp_all
  have "commitsForRepo example_this example_host ''not-a-valid-name'' =
      {({#}, Inl (Error (''incorrect format: '' @ ''not-a-valid-name'')))}"
    by (rule commitsForRepo_rejects_in_order [OF refl, THEN conjunct1, THEN mp]) (rule shape)
  moreover have "commitsForRepo example_this example_host ''acme/gadget'' =
      {({#ROOTURL example_this @ ''/repos/'' @ ''acme/gadget''#},
        Inl (Error ''ignoring forked repo''))}"
    by (rule commitsForRepo_rejects_in_order
          [OF refl, where res = "?ok gadget", THEN conjunct2, THEN conjunct1, THEN mp])
      (intro conjI shape repos status forks)
  moreover have "commitsForRepo example_this example_host ''acme/manual'' =
      {({#ROOTURL example_this @ ''/repos/'' @ ''acme/manual''#} +
          {#''https://u:t@api.github.com/repos/acme/manual/tags''#},
        Inl (Error ''repo has no version tag''))}"
    by (rule commitsForRepo_rejects_in_order
          [OF refl, where res = "?ok manual" and result = "\<lparr>tr_repo = manual, tr_tag = None\<rparr>",
            THEN conjunct2, THEN conjunct2, THEN conjunct1, THEN mp])
      (intro conjI shape repos status forks tags, simp)
  moreover have "commitsForRepo example_this example_host ''acme/widget'' =
      {({#ROOTURL example_this @ ''/repos/'' @ ''acme/widget''#} +
          {#''https://u:t@api.github.com/repos/acme/widget/tags''#} +
          {#''https://u:t@api.github.com/repos/acme/widget/commits/c2'',
            ''https://u:t@api.github.com/repos/acme/widget/commits?since=2016-02-01T00:00:00Z''#},
        Inr (transformResult \<lparr>dr_repo = widget, dr_tag = ?v2,
              dr_commits = map cr_commit
                [commit_on ''c5'' ''2016-02-04T00:00:00Z'' ''fix'',
                 commit_on ''c4'' ''2016-02-03T00:00:00Z'' ''beta'',
                 commit_on ''c3'' ''2016-02-02T00:00:00Z'' ''feature'']\<rparr>))}"
    by (rule commitsForRepo_rejects_in_order
          [OF refl, where res = "?ok widget"
              and result = "\<lparr>tr_repo = widget, tr_tag = Some ?v2\<rparr>" and tag = ?v2,
            THEN conjunct2, THEN conjunct2, THEN conjunct2, THEN mp])
      (intro conjI shape repos status forks tags delta, simp)
  ultimately show ?thesis
    by (simp add: example_this_def transformResult_def widget_def commit_on_def)
qed

text \<open>
  C8. The specification has \<^verbatim>\<open>commitsForRepo\<close> reject a malformed name, a fork and a repository
  without a qualifying tag, in that order, and publish one result otherwise. The first two
  rejections are as specified (lemma \<open>commitsForRepo_rejects_in_order\<close>). The third is
  decided by \<^verbatim>\<open>VERSION_RE\<close>: \<^verbatim>\<open>early/preview\<close> has a well-formed name, is not a fork and has no
  official release, and the code publishes a result for its tag \<^verbatim>\<open>v1.0b2\<close> where the
  specification has it reject with \<^verbatim>\<open>repo has no version tag\<close>.
\<close>

theorem commitsForRepo_accepts_unofficial_release:
  "owner_name_shape ''early/preview'' \<and>
   repo_at preview_host ''https://u:t@api.github.com/repos/early/preview'' = ok preview \<and>
   \<not> fork preview \<and>
   tags_at preview_host ''https://u:t@api.github.com/repos/early/preview/tags'' =
     ok preview_tags \<and>
   find (\<lambda>tag. test official_release_pattern (tag_name tag)) preview_tags = None \<and>
   commitsForRepo example_this preview_host ''early/preview'' =
     {({#''https://u:t@api.github.com/repos/early/preview'',
         ''https://u:t@api.github.com/repos/early/preview/tags'',
         ''https://u:t@api.github.com/repos/early/preview/commits/p2'',
         ''https://u:t@api.github.com/repos/early/preview/commits?since=2016-04-01T00:00:00Z''#},
       Inr preview_entry)}"
proof (intro conjI)
  show "owner_name_shape ''early/preview''"
    by (simp add: FULLPATH_RE_shape [symmetric] FULLPATH_RE_def)
  show "repo_at preview_host ''https://u:t@api.github.com/repos/early/preview'' = ok preview"
    by (simp add: preview_host_def)
  show "\<not> fork preview"
    by (simp add: preview_def)
  show "tags_at preview_host ''https://u:t@api.github.com/repos/early/preview/tags'' =
     ok preview_tags"
    by (simp add: preview_host_def)
  show "find (\<lambda>tag. test official_release_pattern (tag_name tag)) preview_tags = None"
    by (rule preview_no_official_release)
  show "commitsForRepo example_this preview_host ''early/preview'' =
     {({#''https://u:t@api.github.com/repos/early/preview'',
         ''https://u:t@api.github.com/repos/early/preview/tags'',
         ''https://u:t@api.github.com/repos/early/preview/commits/p2'',
         ''https://u:t@api.github.com/repos/early/preview/commits?since=2016-04-01T00:00:00Z''#},
       Inr preview_entry)}"
    unfolding commitsForRepo_def catch_promise_rethrow
    by (simp add: FULLPATH_RE_def fetch_handleResponse then_promise_resolved
        then_promise_rejected getLatestTag_eq getRepoCommitsSinceTag_eq Promise_resolve_def
        transformResult_def VERSION_RE_def preview_defs)
qed

subsection \<open>The published result\<close>

text \<open>
  C9, as the specification words it, has the timestamp of a commit dropped from the
  published result. The timestamp is \<^verbatim>\<open>author.date\<close>, and \<^verbatim>\<open>_transformResult\<close> copies the
  author object as it is: the date of the example's commit is in its projection, and
  another date gives another projection.
\<close>

theorem transformResult_keeps_author_date:
  "map (\<lambda>c. author_date (pc_author c)) (res_commits (transformResult example_delta)) =
     [''2016-02-02T00:00:00Z''] \<and>
   transformResult (example_delta
      \<lparr>dr_commits := [cr_commit (commit_on ''c3'' ''2016-02-09T00:00:00Z'' ''feature'')]\<rparr>)
     \<noteq> transformResult example_delta"
  by (simp add: transformResult_def example_delta_def commit_on_def)

text \<open>
  C9, amended. The projection is a function of its argument: \<^verbatim>\<open>repo\<close> is the full name of
  the repository, \<^verbatim>\<open>tag\<close> the name of the tag, \<^verbatim>\<open>numCommits\<close> the length of the commit
  sequence, and each commit becomes its author object, unchanged, and its message. The
  rest of a commit is dropped: the projection does not depend on it.
\<close>

theorem transformResult_projection:
  "res_repo (transformResult r) = full_name (dr_repo r) \<and>
   res_tag (transformResult r) = tag_name (dr_tag r) \<and>
   numCommits (transformResult r) = length (dr_commits r) \<and>
   res_commits (transformResult r) =
     map (\<lambda>c. \<lparr>pc_author = gc_author c, pc_message = gc_message c\<rparr>) (dr_commits r) \<and>
   transformResult (r\<lparr>dr_commits := map (\<lambda>c. c\<lparr>gc_metadata := m\<rparr>) (dr_commits r)\<rparr>) =
     transformResult r"
  by (simp add: transformResult_def comp_def)

subsection \<open>The constructor\<close>

text \<open>
  C10. When \<^verbatim>\<open>opts.user\<close> or \<^verbatim>\<open>opts.token\<close> is falsy (absent, or the empty string), the
  constructor throws \<^verbatim>\<open>user or token missing\<close> and there is no instance. When both are
  present, the instance has the base URL with the two credentials in it.
\<close>

theorem GHcst_requires_user_and_token:
  "(opts_user opts = None \<or> opts_user opts = Some [] \<or>
    opts_token opts = None \<or> opts_token opts = Some [] \<longrightarrow>
      GHcst opts = Inl (Error ''user or token missing'')) \<and>
   (\<forall>u t. opts_user opts = Some u \<and> u \<noteq> [] \<and> opts_token opts = Some t \<and> t \<noteq> [] \<longrightarrow>
      GHcst opts = Inr \<lparr>ROOTURL = ''https://'' @ u @ '':'' @ t @ ''@api.github.com''\<rparr>)"
  by (cases "opts_user opts"; cases "opts_token opts") (auto simp: GHcst_def)

theorem GHcst_requires_user_and_token_witness:
  "GHcst \<lparr>opts_user = Some ''u'', opts_token = None\<rparr> = Inl (Error ''user or token missing'') \<and>
   GHcst \<lparr>opts_user = Some [], opts_token = Some ''t''\<rparr> = Inl (Error ''user or token missing'') \<and>
   GHcst \<lparr>opts_user = Some ''u'', opts_token = Some ''t''\<rparr> = Inr example_this"
  using GHcst_requires_user_and_token [of "\<lparr>opts_user = Some ''u'', opts_token = None\<rparr>"]
    GHcst_requires_user_and_token [of "\<lparr>opts_user = Some [], opts_token = Some ''t''\<rparr>"]
    GHcst_requires_user_and_token [of "\<lparr>opts_user = Some ''u'', opts_token = Some ''t''\<rparr>"]
  by (simp add: example_this_def)

end
